theory Spec2Isabelle
  imports Complex_Main "HOL-Library.Sublist" "HOL-Library.List_Lexorder"
begin

section \<open>Python strings\<close>

text \<open>
  A Python \<open>str\<close> is a sequence of Unicode code points. It is modelled as a list of
  natural numbers, so that the non-ASCII separator of the version display and the
  Unicode white space of \<open>str.strip\<close> are the values the interpreter sees. With
  the lexicographic order on lists, \<open><\<close> on two strings is Python's comparison of
  \<open>str\<close> values (code point by code point, a proper prefix being smaller).
\<close>

type_synonym pystr = "nat list"

text \<open>An ASCII literal as a Python string.\<close>

definition ustr :: "string \<Rightarrow> pystr" where
  "ustr s = map of_char s"

text \<open>
  \<open>str.isspace\<close> on one code point: the characters that \<open>str.strip()\<close> removes
  (U+0009..U+000D, U+001C..U+0020, U+0085, U+00A0, U+1680, U+2000..U+200A, U+2028,
  U+2029, U+202F, U+205F, U+3000).
\<close>

definition is_space :: "nat \<Rightarrow> bool" where
  "is_space c \<longleftrightarrow>
     (9 \<le> c \<and> c \<le> 13) \<or> (28 \<le> c \<and> c \<le> 32) \<or> c = 133 \<or> c = 160 \<or> c = 5760 \<or>
     (8192 \<le> c \<and> c \<le> 8202) \<or> c = 8232 \<or> c = 8233 \<or> c = 8239 \<or> c = 8287 \<or> c = 12288"

text \<open>\<open>s.strip()\<close>: leading and trailing white space removed.\<close>

definition strip :: "pystr \<Rightarrow> pystr" where
  "strip s = rev (dropWhile is_space (rev (dropWhile is_space s)))"

text \<open>
  \<open>s.lower()\<close> is a built-in of Python that lower-cases every cased code point by
  the case tables of Unicode, which are no part of the repository. The functions that
  call it take it as their first argument \<open>lower\<close>, and what is proved of them holds
  for every such function. On a string of ASCII characters \<open>s.lower()\<close> is
  \<open>ascii_lower s\<close>: the letters \<open>A\<close>..\<open>Z\<close> become \<open>a\<close>..\<open>z\<close> and nothing
  else changes; \<open>lowers_ascii\<close> says so of a function.
\<close>

type_synonym str_lower = "pystr \<Rightarrow> pystr"

definition lower_cp :: "nat \<Rightarrow> nat" where
  "lower_cp c = (if 65 \<le> c \<and> c \<le> 90 then c + 32 else c)"

definition ascii_lower :: str_lower where
  "ascii_lower s = map lower_cp s"

definition lowers_ascii :: "str_lower \<Rightarrow> bool" where
  "lowers_ascii lower \<longleftrightarrow> (\<forall>s. list_all (\<lambda>c. c < 128) s \<longrightarrow> lower s = ascii_lower s)"

text \<open>
  \<open>re.split(cls, s)\<close> for a pattern that is one character class: every character of
  the class is a split point, empty pieces are kept.
\<close>

fun re_split :: "(nat \<Rightarrow> bool) \<Rightarrow> pystr \<Rightarrow> pystr list" where
  "re_split d [] = [[]]"
| "re_split d (c # cs) =
     (if d c then [] # re_split d cs
      else (case re_split d cs of
              [] \<Rightarrow> [[c]]
            | p # ps \<Rightarrow> (c # p) # ps))"

text \<open>
  \<open>s.split(sep)\<close> with a separator string: split at every (leftmost, non-overlapping)
  occurrence of \<open>sep\<close>. Python raises \<open>ValueError\<close> for an empty separator; the callers
  below pass a non-empty literal.
\<close>

function split :: "pystr \<Rightarrow> pystr \<Rightarrow> pystr list" where
  "split sep [] = [[]]"
| "split sep (c # cs) =
     (if sep \<noteq> [] \<and> prefix sep (c # cs) then [] # split sep (drop (length sep) (c # cs))
      else (case split sep cs of
              [] \<Rightarrow> [[c]]
            | p # ps \<Rightarrow> (c # p) # ps))"
  by pat_completeness auto
termination
  by (relation "measure (\<lambda>(sep, s). length s)") (auto simp: neq_Nil_conv)

section \<open>Errors\<close>

text \<open>The exceptions of the modelled code, as values.\<close>

datatype error = IndexError | TypeError | TclError | InvalidVersion

section \<open>Package descriptors and the reverse-dependency index\<close>

text \<open>The dictionary returned by \<open>PackageUtils.get_package_info_modern\<close>.\<close>

record package_info =
  pkg_name :: pystr
  pkg_version :: pystr
  pkg_size :: nat
  pkg_install_date_ts :: "real option"
  pkg_location :: pystr
  pkg_installer :: pystr
  pkg_metadata :: "(pystr \<times> pystr) list"
  pkg_requires :: "pystr list"

text \<open>
  A Python \<open>dict\<close> keeps its keys in insertion order: an association list with
  distinct keys. \<open>reverse_deps\<close> is a \<open>defaultdict(list)\<close> from a requirement name to
  the names of the packages that require it.
\<close>

type_synonym rdeps = "(pystr \<times> pystr list) list"

text \<open>\<open>d.keys()\<close> and \<open>d.get(k, [])\<close>.\<close>

definition dict_keys :: "('k \<times> 'v) list \<Rightarrow> 'k list" where
  "dict_keys d = map fst d"

definition dict_get :: "('k \<times> 'v list) list \<Rightarrow> 'k \<Rightarrow> 'v list" where
  "dict_get d k = (case map_of d k of None \<Rightarrow> [] | Some vs \<Rightarrow> vs)"

text \<open>
  \<open>d[k].append(v)\<close> on a \<open>defaultdict(list)\<close>: a missing key is created with the empty
  list, at the end of the dictionary.
\<close>

fun dd_append :: "'k \<Rightarrow> 'v \<Rightarrow> ('k \<times> 'v list) list \<Rightarrow> ('k \<times> 'v list) list" where
  "dd_append k v [] = [(k, [v])]"
| "dd_append k v ((k', vs) # d) =
     (if k = k' then (k', vs @ [v]) # d else (k', vs) # dd_append k v d)"

text \<open>The character class \<open>[<>=!~ (]\<close> of \<open>_load_packages_task\<close>.\<close>

definition is_req_delim :: "nat \<Rightarrow> bool" where
  "is_req_delim c \<longleftrightarrow> c \<in> set (ustr ''<>=!~ ('')"

text \<open>
  \<open>re.split(r'[<>=!~ (]', req_str)[0].strip()\<close>. Indexing an empty list raises
  \<open>IndexError\<close>.
\<close>

definition req_name_of :: "pystr \<Rightarrow> error + pystr" where
  "req_name_of req_str =
     (case re_split is_req_delim req_str of
        [] \<Rightarrow> Inl IndexError
      | p # ps \<Rightarrow> Inr (strip p))"

text \<open>The inner loop over \<open>pkg['requires']\<close>, for the package named \<open>nm\<close>.\<close>

fun index_requires :: "pystr \<Rightarrow> pystr list \<Rightarrow> rdeps \<Rightarrow> error + rdeps" where
  "index_requires nm [] d = Inr d"
| "index_requires nm (req_str # rs) d =
     (case req_name_of req_str of
        Inl e \<Rightarrow> Inl e
      | Inr req_name \<Rightarrow>
          index_requires nm rs
            (if req_name \<noteq> [] \<and> req_name \<noteq> nm then dd_append req_name nm d else d))"

text \<open>The outer loop over \<open>packages\<close>; \<open>if pkg.get('requires')\<close> skips an empty list.\<close>

fun index_packages :: "package_info list \<Rightarrow> rdeps \<Rightarrow> error + rdeps" where
  "index_packages [] d = Inr d"
| "index_packages (pkg # pkgs) d =
     (if pkg_requires pkg \<noteq> [] then
        (case index_requires (pkg_name pkg) (pkg_requires pkg) d of
           Inl e \<Rightarrow> Inl e
         | Inr d' \<Rightarrow> index_packages pkgs d')
      else index_packages pkgs d)"

text \<open>The index built by \<open>_load_packages_task\<close>, from \<open>defaultdict(list)\<close>.\<close>

definition build_reverse_deps :: "package_info list \<Rightarrow> error + rdeps" where
  "build_reverse_deps packages = index_packages packages []"

text \<open>
  The bare name in the words of the specification: the prefix of the requirement string
  before the first delimiter (the whole string when there is none), stripped.
\<close>

definition bare_name_spec :: "pystr \<Rightarrow> pystr" where
  "bare_name_spec s = strip (takeWhile (\<lambda>c. c \<notin> set (ustr ''<>=!~ ('')) s)"

section \<open>Outdated lookup\<close>

text \<open>
  One entry of \<open>pip list --outdated --format json\<close>: a JSON object with string fields
  (\<open>name\<close>, \<open>version\<close>, \<open>latest_version\<close>, \<open>latest_filetype\<close>).
\<close>

type_synonym outdated_info = "(pystr \<times> pystr) list"

text \<open>
  \<open>re.sub(r"[-.]+", "_", s)\<close>: scanning from the left, every maximal run of \<open>-\<close> and
  \<open>.\<close> is replaced by one underscore.
\<close>

definition is_dash_dot :: "nat \<Rightarrow> bool" where
  "is_dash_dot c \<longleftrightarrow> c \<in> set (ustr ''-.'')"

function sub_dash_dot :: "pystr \<Rightarrow> pystr" where
  "sub_dash_dot [] = []"
| "sub_dash_dot (c # cs) =
     (if is_dash_dot c then ustr ''_'' @ sub_dash_dot (dropWhile is_dash_dot cs)
      else c # sub_dash_dot cs)"
  by pat_completeness auto
termination
  by (relation "measure length") (auto simp: length_dropWhile_le less_Suc_eq_le)

text \<open>\<open>re.sub(r"[-.]+", "_", name).lower()\<close>\<close>

definition normalized :: "str_lower \<Rightarrow> pystr \<Rightarrow> pystr" where
  "normalized lower nm = lower (sub_dash_dot nm)"

text \<open>
  \<open>_is_package_outdated\<close>: the entry under the exact key, else the first entry (in the
  order of the dictionary) whose normalized key is the normalized package name, else
  \<open>None\<close>.
\<close>

fun find_normalized :: "str_lower \<Rightarrow> pystr \<Rightarrow> (pystr \<times> 'i) list \<Rightarrow> 'i option" where
  "find_normalized lower normalized_name [] = None"
| "find_normalized lower normalized_name ((outdated_name, info) # items) =
     (if normalized_name = normalized lower outdated_name then Some info
      else find_normalized lower normalized_name items)"

definition is_package_outdated ::
    "str_lower \<Rightarrow> (pystr \<times> 'i) list \<Rightarrow> pystr \<Rightarrow> 'i option" where
  "is_package_outdated lower outdated pkg_nm =
     (if pkg_nm \<in> set (dict_keys outdated) then map_of outdated pkg_nm
      else find_normalized lower (normalized lower pkg_nm) outdated)"

section \<open>The application state and the scan coordinator\<close>

text \<open>The result of \<open>_load_packages_task\<close>: packages, reverse index, damaged paths.\<close>

type_synonym load_result = "package_info list \<times> rdeps \<times> pystr list"

text \<open>
  The texts of the status bar and of the message boxes, by what they say; the numbers and
  names that the source formats into them are the arguments.
\<close>

datatype message =
    FindingSitePackages
  | ScanningInstalled
  | Scanning nat nat pystr
  | ScanningDamaged nat nat
  | CheckingOutdated
  | Ready
  | SwitchedToEnvironment pystr
  | FoundOutdated nat
  | AllUpToDate
  | LoadListFirst
  | NoPackagesLoaded
  | AnalyzingDependencies
  | FoundOrphans nat
  | FailedToLocateSitePackages pystr pystr
  | NoData
  | NoChecksSelected
  | ScanningForDamage
  | ScanComplete nat

text \<open>
  What the coordinating thread does to the widgets, the message boxes, the cache file and
  the worker threads, in the order it does it.
\<close>

datatype ui_effect =
    ShowInfo message
  | CacheSave pystr "package_info list" rdeps "pystr list"
  | FilterPackages
  | PopulateTree
  | UpdateUiState bool
  | StatusUpdate message
  | SetPersistent message
  | UpgradeAllBtn bool
  | TerminateActiveProcess
  | SaveSettings
  | QueueStatusUpdate message int
  | RunLoadPackagesTask int bool
  | RunOutdatedTask int
  | AfterInitialLoad
  | OrphanStatus message
  | OrphanTree "package_info list"
  | DamagedStatus message
  | RunDamagedScanTask

text \<open>
  A problem dictionary of the damage scan. The rows of \<open>damaged_tree\<close> are such
  dictionaries: the item identifier is \<open>id\<close>, the values are \<open>name\<close>, \<open>problem\<close>
  and \<open>details\<close>, the only tag is \<open>type\<close>.
\<close>

record problem =
  p_id :: pystr
  p_name :: pystr
  p_problem :: pystr
  p_details :: pystr
  p_type :: pystr

record app_state =
  all_packages :: "package_info list"
  outdated_packages :: "(pystr \<times> outdated_info) list"
  reverse_deps :: rdeps
  orphaned_packages_cache :: "package_info list"
  damaged_packages_cache :: "pystr list"
  current_interpreter :: pystr
  current_scan_id :: int
  damaged_tree :: "problem list"
  damaged_selection :: "pystr list"
  reinstall_damaged_btn :: bool
  effects :: "ui_effect list"

definition emit :: "ui_effect \<Rightarrow> app_state \<Rightarrow> app_state" where
  "emit e st = st\<lparr>effects := effects st @ [e]\<rparr>"

text \<open>\<open>sorted(packages, key=lambda p: p['name'].lower())\<close>: a stable sort.\<close>

definition sorted_by_name :: "str_lower \<Rightarrow> package_info list \<Rightarrow> package_info list" where
  "sorted_by_name lower packages = sort_key (\<lambda>p. lower (pkg_name p)) packages"

text \<open>
  \<open>_start_full_refresh_chain\<close>: the generation is advanced and the worker is started
  with the new stamp; the callback is \<open>_on_packages_loaded_then_check\<close> when
  \<open>run_update_check\<close>, \<open>_on_installed_loaded\<close> otherwise.
\<close>

definition start_full_refresh_chain :: "bool \<Rightarrow> app_state \<Rightarrow> app_state" where
  "start_full_refresh_chain run_update_check st =
     (let st1 = emit (UpdateUiState True) (emit TerminateActiveProcess st);
          scan_id = current_scan_id st1 + 1;
          st2 = st1\<lparr>current_scan_id := scan_id\<rparr>
      in emit (RunLoadPackagesTask scan_id run_update_check) st2)"

definition check_for_updates_only :: "app_state \<Rightarrow> app_state" where
  "check_for_updates_only st =
     (if all_packages st = [] then
        emit (ShowInfo LoadListFirst) st
      else
        (let st1 = emit (UpdateUiState True) st;
             scan_id = current_scan_id st1 + 1;
             st2 = st1\<lparr>current_scan_id := scan_id\<rparr>;
             st3 = emit (QueueStatusUpdate CheckingOutdated scan_id) st2
         in emit (RunOutdatedTask scan_id) st3))"

text \<open>
  \<open>_on_interpreter_selected\<close>: a change of environment advances the generation and
  empties the snapshot; \<open>initial_load\<close> is scheduled.
\<close>

definition on_interpreter_selected :: "pystr \<Rightarrow> app_state \<Rightarrow> app_state" where
  "on_interpreter_selected new_interpreter st =
     (if new_interpreter \<noteq> current_interpreter st then
        (let st1 = st\<lparr>current_scan_id := current_scan_id st + 1,
                       current_interpreter := new_interpreter\<rparr>;
             st2 = emit (StatusUpdate (SwitchedToEnvironment new_interpreter)) st1;
             st3 = st2\<lparr>all_packages := [], outdated_packages := [], reverse_deps := []\<rparr>
         in emit AfterInitialLoad (emit SaveSettings (emit PopulateTree st3)))
      else st)"

text \<open>
  \<open>initial_load\<close>: the cache of the environment, when there is a valid one, is shown
  while the refresh runs.
\<close>

definition initial_load :: "load_result option \<Rightarrow> bool \<Rightarrow> app_state \<Rightarrow> app_state" where
  "initial_load cache_data run_update_check st =
     (case cache_data of
        Some (packages, rd, damaged) \<Rightarrow>
          (let st1 = st\<lparr>all_packages := packages, reverse_deps := rd,
                         damaged_packages_cache := damaged\<rparr>
           in start_full_refresh_chain run_update_check
                (emit FilterPackages (emit PopulateTree st1)))
      | None \<Rightarrow> start_full_refresh_chain run_update_check st)"

text \<open>The part shared by the two callbacks of a package scan.\<close>

definition apply_load_result :: "str_lower \<Rightarrow> load_result \<Rightarrow> app_state \<Rightarrow> app_state" where
  "apply_load_result lower result st =
     (case result of (packages, rd, damaged) \<Rightarrow>
        (let st1 = (if packages \<noteq> [] then
                      st\<lparr>all_packages := sorted_by_name lower packages, reverse_deps := rd\<rparr>
                    else st);
             st2 = st1\<lparr>damaged_packages_cache := damaged\<rparr>;
             st3 = emit (CacheSave (current_interpreter st2) (all_packages st2)
                           (reverse_deps st2) (damaged_packages_cache st2)) st2
         in emit FilterPackages st3))"

definition on_installed_loaded ::
    "str_lower \<Rightarrow> load_result \<Rightarrow> int \<Rightarrow> app_state \<Rightarrow> app_state" where
  "on_installed_loaded lower result scan_id st =
     (if scan_id \<noteq> current_scan_id st then st
      else emit (StatusUpdate Ready)
             (emit (UpdateUiState False) (apply_load_result lower result st)))"

definition on_packages_loaded_then_check ::
    "str_lower \<Rightarrow> load_result \<Rightarrow> int \<Rightarrow> app_state \<Rightarrow> app_state" where
  "on_packages_loaded_then_check lower result scan_id st =
     (if scan_id \<noteq> current_scan_id st then st
      else emit (RunOutdatedTask scan_id)
             (emit (QueueStatusUpdate CheckingOutdated scan_id)
                (apply_load_result lower result st)))"

definition on_outdated_checked ::
    "(pystr \<times> outdated_info) list \<Rightarrow> int \<Rightarrow> app_state \<Rightarrow> app_state" where
  "on_outdated_checked outdated_map scan_id st =
     (if scan_id \<noteq> current_scan_id st then st
      else
        (let st1 = st\<lparr>outdated_packages := outdated_map\<rparr>;
             st2 = emit (UpgradeAllBtn (outdated_map \<noteq> [])) st1;
             st3 = emit (UpdateUiState False) (emit FilterPackages (emit PopulateTree st2));
             num_outdated = length (outdated_packages st3)
         in emit (StatusUpdate (if num_outdated > 0 then FoundOutdated num_outdated
                                else AllUpToDate)) st3))"

text \<open>The task queued by \<open>_queue_status_update\<close>, run by the coordinating thread.\<close>

definition update_task :: "message \<Rightarrow> int \<Rightarrow> app_state \<Rightarrow> app_state" where
  "update_task message scan_id st =
     (if scan_id = current_scan_id st then emit (SetPersistent message) st else st)"

text \<open>
  What the coordinating thread can be asked to do: the user's requests and the callbacks
  that \<open>_process_queue\<close> takes from the task queue. A callback carries the result of its
  worker and the stamp the worker was started with.
\<close>

datatype event =
    RefreshInstalledOnly
  | RefreshAndCheckUpdates
  | CheckForUpdatesOnly
  | InterpreterSelected pystr
  | InitialLoad "load_result option" bool
  | InstalledLoaded load_result int
  | PackagesLoadedThenCheck load_result int
  | OutdatedChecked "(pystr \<times> outdated_info) list" int
  | UpdateTask message int

fun step :: "str_lower \<Rightarrow> event \<Rightarrow> app_state \<Rightarrow> app_state" where
  "step lower RefreshInstalledOnly st = start_full_refresh_chain False st"
| "step lower RefreshAndCheckUpdates st = start_full_refresh_chain True st"
| "step lower CheckForUpdatesOnly st = check_for_updates_only st"
| "step lower (InterpreterSelected new_interpreter) st = on_interpreter_selected new_interpreter st"
| "step lower (InitialLoad cache_data run_update_check) st =
     initial_load cache_data run_update_check st"
| "step lower (InstalledLoaded result scan_id) st = on_installed_loaded lower result scan_id st"
| "step lower (PackagesLoadedThenCheck result scan_id) st =
     on_packages_loaded_then_check lower result scan_id st"
| "step lower (OutdatedChecked outdated_map scan_id) st = on_outdated_checked outdated_map scan_id st"
| "step lower (UpdateTask message scan_id) st = update_task message scan_id st"

definition run :: "str_lower \<Rightarrow> event list \<Rightarrow> app_state \<Rightarrow> app_state" where
  "run lower es st = fold (step lower) es st"

text \<open>
  The stamp an event gives to the scan it starts, when it starts one: the generation
  after the event.
\<close>

fun launched_stamp :: "event \<Rightarrow> app_state \<Rightarrow> int option" where
  "launched_stamp RefreshInstalledOnly st = Some (current_scan_id st + 1)"
| "launched_stamp RefreshAndCheckUpdates st = Some (current_scan_id st + 1)"
| "launched_stamp (InitialLoad cache_data run_update_check) st = Some (current_scan_id st + 1)"
| "launched_stamp CheckForUpdatesOnly st =
     (if all_packages st = [] then None else Some (current_scan_id st + 1))"
| "launched_stamp e st = None"

text \<open>
  An event that supersedes the scans in flight: it starts a scan, or it switches to
  another environment.
\<close>

definition supersedes :: "event \<Rightarrow> app_state \<Rightarrow> bool" where
  "supersedes e st \<longleftrightarrow>
     launched_stamp e st \<noteq> None \<or>
     (case e of InterpreterSelected i \<Rightarrow> i \<noteq> current_interpreter st | _ \<Rightarrow> False)"

text \<open>Every key of the index has at least one dependent.\<close>

definition nonempty_entries :: "rdeps \<Rightarrow> bool" where
  "nonempty_entries d \<longleftrightarrow> (\<forall>(k, vs) \<in> set d. vs \<noteq> [])"

section \<open>Orphaned packages\<close>

definition essential_packages :: "pystr set" where
  "essential_packages = {ustr ''pip'', ustr ''setuptools'', ustr ''wheel''}"

text \<open>The set \<open>orphan_names\<close> of \<open>find_orphaned_packages\<close>.\<close>

definition orphan_names :: "package_info list \<Rightarrow> rdeps \<Rightarrow> pystr set" where
  "orphan_names packages rd =
     (let all_installed_names = set (map pkg_name packages);
          dependency_names = set (dict_keys rd)
      in all_installed_names - dependency_names - essential_packages)"

definition find_orphaned_packages :: "str_lower \<Rightarrow> app_state \<Rightarrow> app_state" where
  "find_orphaned_packages lower st =
     (if all_packages st = [] then
        emit (ShowInfo NoPackagesLoaded) st
      else
        (let st1 = emit (OrphanStatus AnalyzingDependencies) st;
             names = orphan_names (all_packages st1) (reverse_deps st1);
             st2 = st1\<lparr>orphaned_packages_cache :=
                         sorted_by_name lower
                           (filter (\<lambda>pkg. pkg_name pkg \<in> names) (all_packages st1))\<rparr>;
             st3 = emit (OrphanTree (orphaned_packages_cache st2)) st2
         in emit (OrphanStatus (FoundOrphans (length (orphaned_packages_cache st3)))) st3))"

section \<open>The package scan\<close>

text \<open>
  The text of a caught exception (\<open>str(e)\<close>), and the result of an operation of the
  environment that can raise.
\<close>

type_synonym exn = pystr

text \<open>
  What \<open>_load_packages_task\<close> asks of the target environment and of the file system:
  the existing site-packages directories printed by the interpreter (the whole \<open>try\<close>
  block), \<open>os.listdir\<close>, \<open>os.path.join\<close>, the descriptor of the distribution at a
  path (\<open>Distribution.at\<close> and \<open>get_package_info_modern\<close>) and its \<open>Name\<close> header
  (\<open>dist.metadata.get('Name', '')\<close>).
\<close>

record scan_env =
  site_packages :: "exn + pystr list"
  listdir :: "pystr \<Rightarrow> exn + pystr list"
  path_join :: "pystr \<Rightarrow> pystr \<Rightarrow> pystr"
  package_info_at :: "pystr \<Rightarrow> exn + package_info"
  metadata_name :: "pystr \<Rightarrow> pystr"

text \<open>What a worker puts on the task queue besides its result.\<close>

datatype queued = QueuedStatus message int | QueuedShowError message

text \<open>The \<open>.dist-info\<close> directories of one search path; an \<open>OSError\<close> skips the path.\<close>

definition dist_info_dirs :: "scan_env \<Rightarrow> pystr \<Rightarrow> pystr list" where
  "dist_info_dirs env path =
     (case listdir env path of
        Inl e \<Rightarrow> []
      | Inr ds \<Rightarrow> map (path_join env path) (filter (suffix (ustr ''.dist-info'')) ds))"

text \<open>
  The loop over \<open>enumerate(all_dist_info_dirs)\<close>, from index \<open>i\<close>: a distribution
  without a name, or one whose metadata cannot be read, is recorded as damaged.
\<close>

fun scan_dists ::
  "scan_env \<Rightarrow> int \<Rightarrow> nat \<Rightarrow> nat \<Rightarrow> pystr list \<Rightarrow>
   package_info list \<times> pystr list \<times> queued list \<Rightarrow>
   package_info list \<times> pystr list \<times> queued list" where
  "scan_dists env scan_id n_total i [] acc = acc"
| "scan_dists env scan_id n_total i (dist_path # rest) (packages, damaged, q) =
     scan_dists env scan_id n_total (i + 1) rest
       (case package_info_at env dist_path of
          Inl e \<Rightarrow>
            (packages, damaged @ [dist_path],
             q @ [QueuedStatus (ScanningDamaged (i + 1) n_total) scan_id])
        | Inr pkg_info \<Rightarrow>
            (if pkg_name pkg_info \<noteq> ustr ''N/A'' then
               (packages @ [pkg_info], damaged,
                q @ [QueuedStatus (Scanning (i + 1) n_total (metadata_name env dist_path)) scan_id])
             else
               (packages, damaged @ [dist_path],
                q @ [QueuedStatus (Scanning (i + 1) n_total (metadata_name env dist_path)) scan_id])))"

text \<open>
  \<open>_load_packages_task\<close>: what it queues, and what it returns to its callback. When
  the site-packages directories cannot be located, one error box is queued and the
  result is \<open>[], {}, []\<close>. An exception that leaves the task ends the worker thread
  without a result.
\<close>

definition load_packages_task ::
    "scan_env \<Rightarrow> pystr \<Rightarrow> int \<Rightarrow> queued list \<times> (error + load_result)" where
  "load_packages_task env interpreter scan_id =
     (case site_packages env of
        Inl e \<Rightarrow>
          ([QueuedStatus FindingSitePackages scan_id,
            QueuedShowError (FailedToLocateSitePackages interpreter e)],
           Inr ([], [], []))
      | Inr search_paths \<Rightarrow>
          (let all_dist_info_dirs = concat (map (dist_info_dirs env) search_paths);
               n_total = length all_dist_info_dirs
           in case scan_dists env scan_id n_total 0 all_dist_info_dirs
                     ([], [],
                      [QueuedStatus FindingSitePackages scan_id,
                       QueuedStatus ScanningInstalled scan_id]) of
                (packages, damaged_packages, q) \<Rightarrow>
                  (case build_reverse_deps packages of
                     Inl e \<Rightarrow> (q, Inl e)
                   | Inr rd \<Rightarrow> (q, Inr (packages, rd, damaged_packages)))))"

text \<open>
  A refresh whose worker has run: the callback chosen by \<open>run_update_check\<close> is applied
  to the worker's result, with the worker's stamp.
\<close>

definition deliver_load ::
    "str_lower \<Rightarrow> bool \<Rightarrow> queued list \<times> (error + load_result) \<Rightarrow> int \<Rightarrow> app_state \<Rightarrow> app_state" where
  "deliver_load lower run_update_check outcome scan_id st =
     (case snd outcome of
        Inl e \<Rightarrow> st
      | Inr result \<Rightarrow>
          (if run_update_check then on_packages_loaded_then_check lower result scan_id st
           else on_installed_loaded lower result scan_id st))"

section \<open>The damage scan\<close>

text \<open>The options of \<open>find_damaged_packages\<close>, read from the check boxes.\<close>

record scan_options =
  check_deps :: bool
  check_hashes :: bool
  check_import :: bool
  check_metadata_files :: bool

text \<open>
  An entry of \<open>dist.files\<close>: its path as text (\<open>str(file_info)\<close>), what
  \<open>file_info.locate()\<close> returns or raises, and the recorded hash value, if any.
\<close>

record file_info =
  fi_str :: pystr
  fi_locate :: "exn + pystr"
  fi_hash :: "pystr option"

text \<open>
  A distribution found by \<open>importlib.metadata.distribution\<close>: its \<open>files\<close> (reading
  them can raise; \<open>None\<close> is the empty list here, both are skipped), and whether a
  metadata file exists in its directory (\<open>os.path.exists(os.path.join(dist._path,
  name))\<close>, which raises for a distribution without a file system path).
\<close>

record dist =
  dist_files :: "exn + file_info list"
  meta_exists :: "pystr \<Rightarrow> exn + bool"

text \<open>
  What the damage scan asks of its surroundings: \<open>os.path.basename\<close>, the standard
  output of \<open>pip check\<close>, \<open>packages_distributions()\<close>, the lookup of a distribution,
  the import of a module in a subprocess (return code, standard error, standard output),
  \<open>os.path.isfile\<close>, and the url-safe base 64 SHA-256 digest of the content of a file,
  without padding. Each of these either returns or raises.
\<close>

record damage_env =
  basename :: "pystr \<Rightarrow> pystr"
  pip_check :: "exn + pystr"
  packages_distributions :: "exn + (pystr \<times> pystr list) list"
  distribution :: "pystr \<Rightarrow> exn + dist"
  run_import :: "pystr \<Rightarrow> exn + int \<times> pystr \<times> pystr"
  isfile :: "pystr \<Rightarrow> bool"
  sha256_b64 :: "pystr \<Rightarrow> exn + pystr"

subsection \<open>String operations of the scan\<close>

text \<open>\<open>s.replace(old, '')\<close>: the pieces between the occurrences of \<open>old\<close>, joined.\<close>

definition remove_all :: "pystr \<Rightarrow> pystr \<Rightarrow> pystr" where
  "remove_all old s = concat (split old s)"

text \<open>\<open>s.rsplit(c, 1)[0]\<close> for a one-character separator: what precedes its last
  occurrence, the whole string when there is none.\<close>

definition rsplit1_head :: "nat \<Rightarrow> pystr \<Rightarrow> pystr" where
  "rsplit1_head c s = (if c \<in> set s then rev (tl (dropWhile (\<lambda>x. x \<noteq> c) (rev s))) else s)"

text \<open>\<open>s.split(sep, 1)\<close>: the two parts around the first occurrence of \<open>sep\<close>, or
  \<open>None\<close> when the list has one element only.\<close>

fun split_once :: "pystr \<Rightarrow> pystr \<Rightarrow> (pystr \<times> pystr) option" where
  "split_once sep [] = None"
| "split_once sep (c # cs) =
     (if prefix sep (c # cs) then Some ([], drop (length sep) (c # cs))
      else (case split_once sep cs of
              None \<Rightarrow> None
            | Some (a, b) \<Rightarrow> Some (c # a, b)))"

text \<open>
  \<open>s.splitlines()\<close>: the line boundaries are \<open>\n\<close>, \<open>\r\<close>, \<open>\r\n\<close>, \<open>\v\<close>,
  \<open>\f\<close>, U+001C..U+001E, U+0085, U+2028 and U+2029; there is no empty last line.
\<close>

definition is_linebreak :: "nat \<Rightarrow> bool" where
  "is_linebreak c \<longleftrightarrow>
     (10 \<le> c \<and> c \<le> 13) \<or> (28 \<le> c \<and> c \<le> 30) \<or> c = 133 \<or> c = 8232 \<or> c = 8233"

fun splitlines_from :: "pystr \<Rightarrow> pystr \<Rightarrow> pystr list" where
  "splitlines_from cur [] = (if cur = [] then [] else [rev cur])"
| "splitlines_from cur [c] =
     (if is_linebreak c then [rev cur] else [rev (c # cur)])"
| "splitlines_from cur (c # d # cs) =
     (if c = 13 \<and> d = 10 then rev cur # splitlines_from [] cs
      else if is_linebreak c then rev cur # splitlines_from [] (d # cs)
      else splitlines_from (c # cur) (d # cs))"

definition splitlines :: "pystr \<Rightarrow> pystr list" where
  "splitlines s = splitlines_from [] s"

subsection \<open>The problem dictionaries\<close>

definition unparseable_metadata :: "pystr \<Rightarrow> pystr \<Rightarrow> problem" where
  "unparseable_metadata path package_name =
     \<lparr>p_id = path, p_name = package_name, p_problem = ustr ''Unparseable metadata'',
      p_details = ustr ''Could not parse metadata from: '' @ path,
      p_type = ustr ''reinstallable''\<rparr>"

definition dependency_conflict :: "pystr \<Rightarrow> pystr \<Rightarrow> problem" where
  "dependency_conflict package_name_from_check req_part =
     \<lparr>p_id = ustr ''dep-'' @ package_name_from_check, p_name = package_name_from_check,
      p_problem = ustr ''Dependency conflict'', p_details = req_part,
      p_type = ustr ''reinstallable''\<rparr>"

definition distribution_lookup_failed :: "pystr \<Rightarrow> exn \<Rightarrow> problem" where
  "distribution_lookup_failed pkg_nm e =
     \<lparr>p_id = ustr ''dist-fail-'' @ pkg_nm, p_name = pkg_nm,
      p_problem = ustr ''Distribution lookup failed'', p_details = e,
      p_type = ustr ''reinstallable''\<rparr>"

definition import_failed :: "pystr \<Rightarrow> pystr \<Rightarrow> problem" where
  "import_failed pkg_nm details =
     \<lparr>p_id = ustr ''import-'' @ pkg_nm, p_name = pkg_nm,
      p_problem = ustr ''Import failed'', p_details = details,
      p_type = ustr ''reinstallable''\<rparr>"

definition import_check_failed :: "pystr \<Rightarrow> exn \<Rightarrow> problem" where
  "import_check_failed pkg_nm e =
     \<lparr>p_id = ustr ''import-fail-'' @ pkg_nm, p_name = pkg_nm,
      p_problem = ustr ''Import check failed'', p_details = e,
      p_type = ustr ''reinstallable''\<rparr>"

definition missing_metadata_file :: "pystr \<Rightarrow> pystr \<Rightarrow> problem" where
  "missing_metadata_file pkg_nm nm =
     \<lparr>p_id = ustr ''missing-meta-'' @ pkg_nm @ ustr ''-'' @ nm, p_name = pkg_nm,
      p_problem = ustr ''Missing metadata file'',
      p_details = ustr ''Metadata file not found: '' @ nm,
      p_type = ustr ''reinstallable''\<rparr>"

definition file_hash_mismatch :: "pystr \<Rightarrow> pystr \<Rightarrow> problem" where
  "file_hash_mismatch pkg_nm file_path_str =
     \<lparr>p_id = ustr ''hash-'' @ pkg_nm @ ustr ''-'' @ file_path_str, p_name = pkg_nm,
      p_problem = ustr ''File hash mismatch'', p_details = ustr ''File: '' @ file_path_str,
      p_type = ustr ''reinstallable''\<rparr>"

definition file_check_failed :: "pystr \<Rightarrow> pystr \<Rightarrow> exn \<Rightarrow> problem" where
  "file_check_failed pkg_nm file_path_str e =
     \<lparr>p_id = ustr ''filecheck-fail-'' @ pkg_nm @ ustr ''-'' @ file_path_str, p_name = pkg_nm,
      p_problem = ustr ''File check failed'',
      p_details = ustr ''Error checking file '' @ file_path_str @ ustr '': '' @ e,
      p_type = ustr ''reinstallable''\<rparr>"

definition corrupted_record_file :: "pystr \<Rightarrow> exn \<Rightarrow> problem" where
  "corrupted_record_file pkg_nm e =
     \<lparr>p_id = ustr ''record-read-fail-'' @ pkg_nm, p_name = pkg_nm,
      p_problem = ustr ''Corrupted RECORD file'',
      p_details = ustr ''Could not parse file list. Error: '' @ e,
      p_type = ustr ''reinstallable''\<rparr>"

text \<open>A problem that the tab offers to repair by a forced reinstallation.\<close>

definition reinstallable :: "problem \<Rightarrow> bool" where
  "reinstallable p \<longleftrightarrow> p_type p = ustr ''reinstallable''"

subsection \<open>The checks\<close>

text \<open>
  The list \<open>problems\<close> only grows. Each function below is what one block of
  \<open>_scan_for_damaged_packages_task\<close> appends to it; a \<open>try\<close> block is a case
  distinction on what the operation returned or raised, and what was appended before
  the exception stays. The status texts that the task queues for the label are left out.
\<close>

text \<open>The paths of \<open>damaged_packages_cache\<close>, carried over from the package scan.\<close>

definition cache_problem :: "damage_env \<Rightarrow> pystr \<Rightarrow> problem" where
  "cache_problem env path =
     (let base = remove_all (ustr ''.dist-info'') (basename env path);
          package_name = rsplit1_head 45 base
      in unparseable_metadata path package_name)"

text \<open>
  The lines of \<open>pip check\<close>. An exception inside the loop would end it (the \<open>except\<close>
  clause prints and goes on): indexing the result of \<open>split\<close> is the one place.
\<close>

fun dep_line_problems :: "pystr list \<Rightarrow> problem list" where
  "dep_line_problems [] = []"
| "dep_line_problems (line # lines) =
     (case split_once (ustr '' has requirement '') line of
        None \<Rightarrow> dep_line_problems lines
      | Some (package_part, req_part) \<Rightarrow>
          (case split (ustr '' '') package_part of
             [] \<Rightarrow> []
           | package_name_from_check # rest \<Rightarrow>
               dependency_conflict package_name_from_check req_part # dep_line_problems lines))"

definition dep_problems :: "damage_env \<Rightarrow> scan_options \<Rightarrow> problem list" where
  "dep_problems env options =
     (if check_deps options then
        (case pip_check env of
           Inl e \<Rightarrow> []
         | Inr output \<Rightarrow> dep_line_problems (splitlines (strip output)))
      else [])"

text \<open>
  \<open>dist_to_module_map\<close>: for every module and every distribution that provides it,
  \<open>dist_to_module_map[dist_name] = module\<close>; a later module replaces an earlier one. An
  exception of \<open>packages_distributions()\<close> leaves the map empty.
\<close>

definition add_module :: "(pystr \<rightharpoonup> pystr) \<Rightarrow> pystr \<times> pystr list \<Rightarrow> (pystr \<rightharpoonup> pystr)" where
  "add_module m entry = foldl (\<lambda>m dist_name. m(dist_name \<mapsto> fst entry)) m (snd entry)"

definition dist_to_module_map :: "damage_env \<Rightarrow> scan_options \<Rightarrow> (pystr \<rightharpoonup> pystr)" where
  "dist_to_module_map env options =
     (if check_import options then
        (case packages_distributions env of
           Inl e \<Rightarrow> Map.empty
         | Inr all_mappings \<Rightarrow> foldl add_module Map.empty all_mappings)
      else Map.empty)"

text \<open>The import test of one package (check #3).\<close>

definition import_problems ::
    "damage_env \<Rightarrow> (pystr \<rightharpoonup> pystr) \<Rightarrow> pystr \<Rightarrow> problem list" where
  "import_problems env module_map pkg_nm =
     (case module_map pkg_nm of
        None \<Rightarrow> []
      | Some import_name_to_test \<Rightarrow>
          (if import_name_to_test = [] then []
           else
             (case run_import env import_name_to_test of
                Inl e \<Rightarrow> [import_check_failed pkg_nm e]
              | Inr (returncode, stderr, stdout) \<Rightarrow>
                  (if returncode \<noteq> 0 then
                     (let error_details = strip (if stderr \<noteq> [] then stderr else stdout)
                      in case split (ustr [CHR 0x0A]) error_details of
                           [] \<Rightarrow> [import_check_failed pkg_nm (ustr ''list index out of range'')]
                         | l # ls \<Rightarrow> [import_failed pkg_nm (last (l # ls))])
                   else []))))"

text \<open>
  The loop over \<open>("METADATA", "RECORD", "WHEEL")\<close> for one file of the package: the
  problems it appends, and the exception that ended it, if any.
\<close>

fun missing_meta_problems :: "dist \<Rightarrow> pystr \<Rightarrow> pystr list \<Rightarrow> problem list \<times> exn option" where
  "missing_meta_problems d pkg_nm [] = ([], None)"
| "missing_meta_problems d pkg_nm (nm # names) =
     (case meta_exists d nm of
        Inl e \<Rightarrow> ([], Some e)
      | Inr ex \<Rightarrow>
          (case missing_meta_problems d pkg_nm names of
             (ps, r) \<Rightarrow> ((if ex then [] else [missing_metadata_file pkg_nm nm]) @ ps, r)))"

text \<open>The hash check of one file (check #2), after the metadata loop went through.\<close>

definition hash_problems ::
    "damage_env \<Rightarrow> pystr \<Rightarrow> file_info \<Rightarrow> pystr \<Rightarrow> problem list \<times> exn option" where
  "hash_problems env pkg_nm fi full_path =
     (case fi_hash fi of
        None \<Rightarrow> ([], None)
      | Some recorded \<Rightarrow>
          (if isfile env full_path then
             (case sha256_b64 env full_path of
                Inl e \<Rightarrow> ([], Some e)
              | Inr actual_hash_b64 \<Rightarrow>
                  (if recorded \<noteq> actual_hash_b64
                   then ([file_hash_mismatch pkg_nm (fi_str fi)], None)
                   else ([], None)))
           else ([], None)))"

text \<open>
  The body of the loop over \<open>dist_files\<close>: the inner \<open>try\<close> block, and its \<open>except\<close>
  clause, which appends one \<open>File check failed\<close> for the file.
\<close>

definition file_try ::
    "damage_env \<Rightarrow> scan_options \<Rightarrow> dist \<Rightarrow> pystr \<Rightarrow> file_info \<Rightarrow> problem list \<times> exn option" where
  "file_try env options d pkg_nm fi =
     (case fi_locate fi of
        Inl e \<Rightarrow> ([], Some e)
      | Inr full_path \<Rightarrow>
          (case (if check_metadata_files options
                 then missing_meta_problems d pkg_nm
                        [ustr ''METADATA'', ustr ''RECORD'', ustr ''WHEEL'']
                 else ([], None)) of
             (ps, Some e) \<Rightarrow> (ps, Some e)
           | (ps, None) \<Rightarrow>
               (if check_hashes options then
                  (case hash_problems env pkg_nm fi full_path of
                     (hs, r) \<Rightarrow> (ps @ hs, r))
                else (ps, None))))"

definition check_file ::
    "damage_env \<Rightarrow> scan_options \<Rightarrow> dist \<Rightarrow> pystr \<Rightarrow> file_info \<Rightarrow> problem list" where
  "check_file env options d pkg_nm fi =
     (case file_try env options d pkg_nm fi of
        (ps, None) \<Rightarrow> ps
      | (ps, Some e) \<Rightarrow> ps @ [file_check_failed pkg_nm (fi_str fi) e])"

text \<open>The file checks of one package, with the outer \<open>try\<close> block.\<close>

definition file_problems ::
    "damage_env \<Rightarrow> scan_options \<Rightarrow> dist \<Rightarrow> pystr \<Rightarrow> problem list" where
  "file_problems env options d pkg_nm =
     (case dist_files d of
        Inl e \<Rightarrow> [corrupted_record_file pkg_nm e]
      | Inr files \<Rightarrow> concat (map (check_file env options d pkg_nm) files))"

text \<open>One iteration of the loop over \<open>all_packages\<close>.\<close>

definition check_package ::
    "damage_env \<Rightarrow> scan_options \<Rightarrow> (pystr \<rightharpoonup> pystr) \<Rightarrow> pystr \<Rightarrow> problem list" where
  "check_package env options module_map pkg_nm =
     (case distribution env pkg_nm of
        Inl e \<Rightarrow> [distribution_lookup_failed pkg_nm e]
      | Inr d \<Rightarrow>
          (if check_import options then import_problems env module_map pkg_nm else []) @
          (if check_hashes options \<or> check_metadata_files options
           then file_problems env options d pkg_nm else []))"

text \<open>The list \<open>problems\<close> at the end of the task, before it is made unique.\<close>

definition all_problems ::
    "damage_env \<Rightarrow> scan_options \<Rightarrow> pystr list \<Rightarrow> package_info list \<Rightarrow> problem list" where
  "all_problems env options damaged_cache packages =
     map (cache_problem env) damaged_cache @
     dep_problems env options @
     concat (map (\<lambda>pkg_data. check_package env options (dist_to_module_map env options)
                                (pkg_name pkg_data)) packages)"

text \<open>
  \<open>{p['id']: p for p in problems}.values()\<close>: a key keeps the place of its first
  problem and the value of its last.
\<close>

fun dict_put :: "'k \<Rightarrow> 'v \<Rightarrow> ('k \<times> 'v) list \<Rightarrow> ('k \<times> 'v) list" where
  "dict_put k v [] = [(k, v)]"
| "dict_put k v ((k', v') # d) =
     (if k = k' then (k', v) # d else (k', v') # dict_put k v d)"

text \<open>The dictionary of the comprehension: every value is stored under its own \<open>id\<close>.\<close>

definition keyed_by_id :: "(pystr \<times> problem) list \<Rightarrow> bool" where
  "keyed_by_id d \<longleftrightarrow> distinct (map fst d) \<and> (\<forall>(k, v) \<in> set d. p_id v = k)"

definition unique_problems :: "problem list \<Rightarrow> problem list" where
  "unique_problems problems = map snd (foldl (\<lambda>d p. dict_put (p_id p) p d) [] problems)"

definition scan_for_damaged_packages_task ::
    "damage_env \<Rightarrow> scan_options \<Rightarrow> app_state \<Rightarrow> problem list" where
  "scan_for_damaged_packages_task env options st =
     unique_problems
       (all_problems env options (damaged_packages_cache st) (all_packages st))"

subsection \<open>The damaged-packages tab\<close>

text \<open>
  \<open>find_damaged_packages\<close>: the state after it, and the options of the scan it starts,
  if it starts one.
\<close>

definition find_damaged_packages ::
    "scan_options \<Rightarrow> app_state \<Rightarrow> app_state \<times> scan_options option" where
  "find_damaged_packages options st =
     (if all_packages st = [] then (emit (ShowInfo NoData) st, None)
      else if \<not> (check_deps options \<or> check_hashes options \<or> check_import options \<or>
                  check_metadata_files options) \<and> damaged_packages_cache st = []
      then (emit (ShowInfo NoChecksSelected) st, None)
      else
        (let st1 = emit (DamagedStatus ScanningForDamage) (emit (UpdateUiState True) st);
             st2 = st1\<lparr>damaged_tree := [], damaged_selection := []\<rparr>
         in (emit RunDamagedScanTask st2, Some options)))"

text \<open>\<open>damaged_tree.insert\<close>: Tk raises \<open>TclError\<close> for an item identifier in use.\<close>

definition tree_insert :: "problem \<Rightarrow> problem list \<Rightarrow> error + problem list" where
  "tree_insert p tree =
     (if p_id p \<in> set (map p_id tree) then Inl TclError else Inr (tree @ [p]))"

fun tree_insert_all :: "problem list \<Rightarrow> problem list \<Rightarrow> error + problem list" where
  "tree_insert_all [] tree = Inr tree"
| "tree_insert_all (p # ps) tree =
     (case tree_insert p tree of
        Inl e \<Rightarrow> Inl e
      | Inr tree' \<Rightarrow> tree_insert_all ps tree')"

text \<open>
  \<open>_on_damaged_selection_changed\<close>: the button is enabled when the selection is not
  empty and every selected item has the tag \<open>reinstallable\<close>. Asking Tk for an item
  that is not in the tree raises \<open>TclError\<close>.
\<close>

fun all_reinstallable :: "problem list \<Rightarrow> pystr list \<Rightarrow> error + bool" where
  "all_reinstallable tree [] = Inr True"
| "all_reinstallable tree (item_id # selection) =
     (case find (\<lambda>p. p_id p = item_id) tree of
        None \<Rightarrow> Inl TclError
      | Some p \<Rightarrow>
          (if ustr ''reinstallable'' \<notin> set [p_type p] then Inr False
           else all_reinstallable tree selection))"

definition on_damaged_selection_changed :: "app_state \<Rightarrow> error + app_state" where
  "on_damaged_selection_changed st =
     (if damaged_selection st = [] then Inr (st\<lparr>reinstall_damaged_btn := False\<rparr>)
      else
        (case all_reinstallable (damaged_tree st) (damaged_selection st) of
           Inl e \<Rightarrow> Inl e
         | Inr ok \<Rightarrow> Inr (st\<lparr>reinstall_damaged_btn := ok\<rparr>)))"

text \<open>The user selects items of the tree: Tk sets the selection and sends the event.\<close>

definition select_damaged :: "pystr list \<Rightarrow> app_state \<Rightarrow> error + app_state" where
  "select_damaged items st = on_damaged_selection_changed (st\<lparr>damaged_selection := items\<rparr>)"

definition on_damaged_scan_complete :: "problem list \<Rightarrow> app_state \<Rightarrow> error + app_state" where
  "on_damaged_scan_complete problems st =
     (let st1 = emit (UpdateUiState False) st
      in case tree_insert_all problems (damaged_tree st1) of
           Inl e \<Rightarrow> Inl e
         | Inr tree \<Rightarrow>
             (let st2 = st1\<lparr>damaged_tree := tree\<rparr>;
                  st3 = emit (DamagedStatus (ScanComplete (length (damaged_tree st2)))) st2
              in on_damaged_selection_changed st3))"

text \<open>
  One run of the damage classifier from the tab: the request, the task in its worker,
  and the callback with the result of the task.
\<close>

definition run_damage_scan ::
    "damage_env \<Rightarrow> scan_options \<Rightarrow> app_state \<Rightarrow> error + app_state" where
  "run_damage_scan env options st =
     (case find_damaged_packages options st of
        (st1, None) \<Rightarrow> Inr st1
      | (st1, Some opts) \<Rightarrow>
          on_damaged_scan_complete (scan_for_damaged_packages_task env opts st1) st1)"

section \<open>The version sort key\<close>

text \<open>
  The separator literal of \<open>get_version_sort_key\<close>. The source file spells the arrow
  with the three code points U+00E2, U+2020, U+2019, in this function and in
  \<open>_populate_tree\<close>, which builds the display string.
\<close>

definition arrow :: pystr where
  "arrow = [226, 8224, 8217]"

text \<open>The \<open>version_display\<close> of an outdated package in \<open>_populate_tree\<close>.\<close>

definition version_display :: "pystr \<Rightarrow> pystr \<Rightarrow> pystr" where
  "version_display pkg_ver latest_ver = pkg_ver @ ustr '' '' @ arrow @ ustr '' '' @ latest_ver"

text \<open>
  A sort key is a \<open>Version\<close> object of the \<open>packaging\<close> library or a \<open>str\<close>. Python
  compares two keys of the same kind and raises \<open>TypeError\<close> for a \<open>Version\<close> and a
  \<open>str\<close>.
\<close>

datatype 'v sort_key = VersionKey 'v | StrKey pystr

fun key_less :: "'v::linorder sort_key \<Rightarrow> 'v sort_key \<Rightarrow> error + bool" where
  "key_less (VersionKey a) (VersionKey b) = Inr (a < b)"
| "key_less (StrKey a) (StrKey b) = Inr (a < b)"
| "key_less (VersionKey a) (StrKey b) = Inl TypeError"
| "key_less (StrKey a) (VersionKey b) = Inl TypeError"


text \<open>\<open>version_string.split(arrow)[0].strip()\<close>\<close>

definition base_version_str :: "pystr \<Rightarrow> error + pystr" where
  "base_version_str version_string =
     (case split arrow version_string of
        [] \<Rightarrow> Inl IndexError
      | p # ps \<Rightarrow> Inr (strip p))"

text \<open>
  \<open>PackageUtils.get_version_sort_key\<close>. The \<open>packaging\<close> library is optional: the
  first argument is \<open>None\<close> when it could not be imported (\<open>PACKAGING_AVAILABLE\<close> is
  false) and its \<open>parse\<close> function otherwise, which returns \<open>None\<close> where the library
  raises \<open>InvalidVersion\<close>. The \<open>except\<close> clause parses \<open>"0.0.0"\<close>; an exception
  raised there leaves the function.
\<close>

definition get_version_sort_key ::
    "(pystr \<Rightarrow> 'v option) option \<Rightarrow> pystr \<Rightarrow> error + 'v sort_key" where
  "get_version_sort_key packaging version_string =
     (case base_version_str version_string of
        Inl e \<Rightarrow> Inl e
      | Inr base \<Rightarrow>
          (case packaging of
             Some parse_version \<Rightarrow>
               (case parse_version base of
                  Some v \<Rightarrow> Inr (VersionKey v)
                | None \<Rightarrow>
                    (case parse_version (ustr ''0.0.0'') of
                       Some z \<Rightarrow> Inr (VersionKey z)
                     | None \<Rightarrow> Inl InvalidVersion))
           | None \<Rightarrow> Inr (StrKey base)))"

text \<open>
  \<open>key(a) < key(b)\<close>, as Python evaluates it: whether version string \<open>a\<close> sorts
  strictly before \<open>b\<close>.
\<close>

definition sorts_before ::
    "(pystr \<Rightarrow> 'v::linorder option) option \<Rightarrow> pystr \<Rightarrow> pystr \<Rightarrow> error + bool" where
  "sorts_before packaging a b =
     (case get_version_sort_key packaging a of
        Inl e \<Rightarrow> Inl e
      | Inr ka \<Rightarrow>
          (case get_version_sort_key packaging b of
             Inl e \<Rightarrow> Inl e
           | Inr kb \<Rightarrow> key_less ka kb))"

text \<open>
  \<open>data.sort(key=lambda t: t[0], reverse=reverse)\<close>. The sort of Python is stable and
  compares keys with \<open><\<close> only. It is modelled by insertion from the right, which is
  stable too: an element goes before the first element whose key is not smaller than
  its own. A comparison that raises ends the sort. With \<open>reverse\<close> the list is reversed
  before and after, as CPython does, so that equal keys keep their order.
\<close>

fun insort_lt ::
  "('k \<Rightarrow> 'k \<Rightarrow> error + bool) \<Rightarrow> 'k \<times> 'a \<Rightarrow> ('k \<times> 'a) list \<Rightarrow> error + ('k \<times> 'a) list" where
  "insort_lt lt x [] = Inr [x]"
| "insort_lt lt x (y # ys) =
     (case lt (fst y) (fst x) of
        Inl e \<Rightarrow> Inl e
      | Inr True \<Rightarrow>
          (case insort_lt lt x ys of
             Inl e \<Rightarrow> Inl e
           | Inr r \<Rightarrow> Inr (y # r))
      | Inr False \<Rightarrow> Inr (x # y # ys))"

fun sort_lt :: "('k \<Rightarrow> 'k \<Rightarrow> error + bool) \<Rightarrow> ('k \<times> 'a) list \<Rightarrow> error + ('k \<times> 'a) list" where
  "sort_lt lt [] = Inr []"
| "sort_lt lt (x # xs) =
     (case sort_lt lt xs of
        Inl e \<Rightarrow> Inl e
      | Inr r \<Rightarrow> insort_lt lt x r)"

definition list_sort ::
  "('k \<Rightarrow> 'k \<Rightarrow> error + bool) \<Rightarrow> bool \<Rightarrow> ('k \<times> 'a) list \<Rightarrow> error + ('k \<times> 'a) list" where
  "list_sort lt reverse data =
     (if reverse then
        (case sort_lt lt (rev data) of
           Inl e \<Rightarrow> Inl e
         | Inr r \<Rightarrow> Inr (rev r))
      else sort_lt lt data)"

text \<open>
  \<open>_sort_column\<close> for the column \<open>Version\<close>: the rows are the items of the tree with
  the text of their version cell; the result is the new order of the items.
  \<open>version_keys\<close> is the list comprehension that computes \<open>data\<close>.
\<close>

fun version_keys ::
  "(pystr \<Rightarrow> 'v option) option \<Rightarrow> (pystr \<times> pystr) list \<Rightarrow> error + ('v sort_key \<times> pystr) list" where
  "version_keys packaging [] = Inr []"
| "version_keys packaging ((child, version_text) # rows) =
     (case get_version_sort_key packaging version_text of
        Inl e \<Rightarrow> Inl e
      | Inr k \<Rightarrow>
          (case version_keys packaging rows of
             Inl e \<Rightarrow> Inl e
           | Inr data \<Rightarrow> Inr ((k, child) # data)))"

definition sort_column_version ::
  "(pystr \<Rightarrow> 'v::linorder option) option \<Rightarrow> bool \<Rightarrow> (pystr \<times> pystr) list \<Rightarrow> error + pystr list" where
  "sort_column_version packaging reverse rows =
     (case version_keys packaging rows of
        Inl e \<Rightarrow> Inl e
      | Inr data \<Rightarrow>
          (case list_sort key_less reverse data of
             Inl e \<Rightarrow> Inl e
           | Inr sorted_data \<Rightarrow> Inr (map snd sorted_data)))"

text \<open>
  Modelled from the spec: \<open>packaging.version.parse\<close> belongs to a third-party library
  that the repository imports and does not contain. The specification has versions
  parsed into semantic-version-like numeric components, for a numeric-aware order.
  \<open>parse_release\<close> is that structured form for the plain release versions
  \<open>N(.N)*\<close>: the components as numbers, trailing zeros dropped (so that \<open>1.0\<close> and
  \<open>1.0.0\<close> are equal), compared from the left; every other string is an
  \<open>InvalidVersion\<close>. It is the parse function of the concrete examples; the general
  statements hold for every parse function.
\<close>

definition is_digit :: "nat \<Rightarrow> bool" where
  "is_digit c \<longleftrightarrow> 48 \<le> c \<and> c \<le> 57"

definition nat_of_digits :: "pystr \<Rightarrow> nat" where
  "nat_of_digits ds = foldl (\<lambda>n c. 10 * n + (c - 48)) 0 ds"

definition parse_release :: "pystr \<Rightarrow> nat list option" where
  "parse_release s =
     (let parts = re_split (\<lambda>c. c = 46) s
      in if list_all (\<lambda>p. p \<noteq> [] \<and> list_all is_digit p) parts
         then Some (rev (dropWhile (\<lambda>n. n = 0) (rev (map nat_of_digits parts))))
         else None)"

section \<open>Sample data\<close>

text \<open>The state after \<open>PackageManagerApp.__init__\<close>, for the interpreter in use.\<close>

definition initial_state :: "pystr \<Rightarrow> app_state" where
  "initial_state interpreter =
     \<lparr>all_packages = [], outdated_packages = [], reverse_deps = [],
      orphaned_packages_cache = [], damaged_packages_cache = [],
      current_interpreter = interpreter, current_scan_id = 0,
      damaged_tree = [], damaged_selection = [], reinstall_damaged_btn = False,
      effects = []\<rparr>"

text \<open>A descriptor with a name, a version and requirement strings, nothing else known.\<close>

definition mk_package :: "string \<Rightarrow> string \<Rightarrow> string list \<Rightarrow> package_info" where
  "mk_package nm ver reqs =
     \<lparr>pkg_name = ustr nm, pkg_version = ustr ver, pkg_size = 0, pkg_install_date_ts = None,
      pkg_location = [], pkg_installer = ustr ''unknown'', pkg_metadata = [],
      pkg_requires = map ustr reqs\<rparr>"

text \<open>An environment whose interpreter cannot be run.\<close>

definition broken_env :: scan_env where
  "broken_env =
     \<lparr>site_packages = Inl (ustr ''No such file or directory''),
      listdir = (\<lambda>path. Inr []),
      path_join = (\<lambda>a b. a @ ustr ''/'' @ b),
      package_info_at = (\<lambda>path. Inl (ustr ''not found'')),
      metadata_name = (\<lambda>path. [])\<rparr>"

text \<open>
  A loaded state: \<open>requests\<close> requires \<open>urllib3\<close>, nothing requires \<open>pip\<close>, one
  distribution could not be parsed,
  and the scan with stamp 1 is the current one.
\<close>

definition loaded_state :: app_state where
  "loaded_state =
     (initial_state (ustr ''/usr/bin/python3''))
       \<lparr>all_packages := [mk_package ''pip'' ''24.0'' [],
                          mk_package ''requests'' ''2.31.0'' [''urllib3<3,>=1.21.1''],
                          mk_package ''urllib3'' ''2.0.7'' []],
        reverse_deps := [(ustr ''urllib3'', [ustr ''requests''])],
        damaged_packages_cache := [ustr ''/sp/bad-1.0.dist-info''],
        current_scan_id := 1\<rparr>"

text \<open>
  Surroundings for a damage scan of \<open>loaded_state\<close>: \<open>pip check\<close> reports one
  conflict, \<open>pip\<close> has no distribution, every other package has one file with the
  recorded hash \<open>abc\<close>; reading the file of \<open>requests\<close> raises, the digest of every
  other file is \<open>zzz\<close>.
\<close>

definition sample_dist :: "pystr \<Rightarrow> dist" where
  "sample_dist nm =
     \<lparr>dist_files = Inr [\<lparr>fi_str = nm @ ustr ''/__init__.py'',
                          fi_locate = Inr (ustr ''/sp/'' @ nm @ ustr ''/__init__.py''),
                          fi_hash = Some (ustr ''abc'')\<rparr>],
      meta_exists = (\<lambda>f. Inr True)\<rparr>"

definition sample_damage_env :: damage_env where
  "sample_damage_env =
     \<lparr>basename = (\<lambda>path. rev (takeWhile (\<lambda>c. c \<noteq> 47) (rev path))),
      pip_check = Inr (ustr ''requests 2.31.0 has requirement urllib3<2, but you have urllib3 2.0.7.''),
      packages_distributions = Inr [],
      distribution = (\<lambda>nm. if nm = ustr ''pip'' then Inl (ustr ''No package metadata was found for pip'')
                            else Inr (sample_dist nm)),
      run_import = (\<lambda>m. Inr (0, [], [])),
      isfile = (\<lambda>path. True),
      sha256_b64 = (\<lambda>path. if path = ustr ''/sp/requests/__init__.py''
                            then Inl (ustr ''Permission denied'') else Inr (ustr ''zzz''))\<rparr>"

definition sample_options :: scan_options where
  "sample_options =
     \<lparr>check_deps = True, check_hashes = True, check_import = False,
      check_metadata_files = False\<rparr>"

text \<open>
  Two packages whose file problems get the same id: \<open>a\<close> owns the file \<open>b-c\<close> and
  \<open>a-b\<close> owns the file \<open>c\<close>. Both files have a recorded hash and neither can be
  read. Only the hash check is selected.
\<close>

definition colliding_dist :: "pystr \<Rightarrow> dist" where
  "colliding_dist f =
     \<lparr>dist_files = Inr [\<lparr>fi_str = f, fi_locate = Inr (ustr ''/sp/'' @ f),
                          fi_hash = Some (ustr ''abc'')\<rparr>],
      meta_exists = (\<lambda>m. Inr True)\<rparr>"

definition colliding_env :: damage_env where
  "colliding_env =
     \<lparr>basename = (\<lambda>path. rev (takeWhile (\<lambda>c. c \<noteq> 47) (rev path))),
      pip_check = Inr [],
      packages_distributions = Inr [],
      distribution = (\<lambda>nm. if nm = ustr ''a'' then Inr (colliding_dist (ustr ''b-c''))
                            else if nm = ustr ''a-b'' then Inr (colliding_dist (ustr ''c''))
                            else Inl (ustr ''No package metadata was found'')),
      run_import = (\<lambda>m. Inr (0, [], [])),
      isfile = (\<lambda>path. True),
      sha256_b64 = (\<lambda>path. Inl (ustr ''Permission denied''))\<rparr>"

definition colliding_state :: app_state where
  "colliding_state =
     (initial_state (ustr ''/usr/bin/python3''))
       \<lparr>all_packages := [mk_package ''a'' ''1.0'' [], mk_package ''a-b'' ''1.0'' []],
        current_scan_id := 1\<rparr>"

definition hash_options :: scan_options where
  "hash_options =
     \<lparr>check_deps = False, check_hashes = True, check_import = False,
      check_metadata_files = False\<rparr>"
section \<open>The reverse-dependency index\<close>

lemma re_split_takeWhile: "\<exists>ps. re_split d s = takeWhile (\<lambda>c. \<not> d c) s # ps"
  by (induction s) auto

lemma req_name_of_spec: "req_name_of s = Inr (bare_name_spec s)"
proof -
  obtain ps where "re_split is_req_delim s = takeWhile (\<lambda>c. \<not> is_req_delim c) s # ps"
    using re_split_takeWhile by blast
  then show ?thesis
    by (simp add: req_name_of_def bare_name_spec_def is_req_delim_def)
qed

lemma map_of_dd_append:
  "map_of (dd_append k v d) = (map_of d)(k \<mapsto> dict_get d k @ [v])"
  by (induction k v d rule: dd_append.induct) (auto simp: dict_get_def fun_eq_iff)

lemma dict_get_dd_append:
  "set (dict_get (dd_append k v d) k') =
     (if k' = k then insert v (set (dict_get d k)) else set (dict_get d k'))"
  by (auto simp: dict_get_def map_of_dd_append split: option.splits)

lemma index_requires_get:
  "\<exists>R. index_requires nm rs d = Inr R \<and>
     (\<forall>k. set (dict_get R k) =
        set (dict_get d k) \<union>
        {n. n = nm \<and> k \<noteq> [] \<and> k \<noteq> nm \<and> (\<exists>s \<in> set rs. bare_name_spec s = k)})"
proof (induction rs arbitrary: d)
  case Nil
  then show ?case by simp
next
  case (Cons r rs)
  let ?d = "if bare_name_spec r \<noteq> [] \<and> bare_name_spec r \<noteq> nm
            then dd_append (bare_name_spec r) nm d else d"
  from Cons.IH [of ?d] obtain R where
    R: "index_requires nm rs ?d = Inr R"
    and G: "\<And>k. set (dict_get R k) = set (dict_get ?d k) \<union>
        {n. n = nm \<and> k \<noteq> [] \<and> k \<noteq> nm \<and> (\<exists>s \<in> set rs. bare_name_spec s = k)}"
    by blast
  have "index_requires nm (r # rs) d = Inr R"
    using R by (simp add: req_name_of_spec)
  moreover have "set (dict_get R k) = set (dict_get d k) \<union>
        {n. n = nm \<and> k \<noteq> [] \<and> k \<noteq> nm \<and> (\<exists>s \<in> set (r # rs). bare_name_spec s = k)}" for k
    unfolding G [of k] by (auto simp: dict_get_dd_append)
  ultimately show ?case by blast
qed

lemma index_packages_get:
  "\<exists>R. index_packages pkgs d = Inr R \<and>
     (\<forall>k. set (dict_get R k) =
        set (dict_get d k) \<union>
        {n. \<exists>A \<in> set pkgs. n = pkg_name A \<and> k \<noteq> [] \<and> k \<noteq> pkg_name A \<and>
              (\<exists>s \<in> set (pkg_requires A). bare_name_spec s = k)})"
proof (induction pkgs arbitrary: d)
  case Nil
  then show ?case by simp
next
  case (Cons p pkgs)
  obtain d' where d': "index_requires (pkg_name p) (pkg_requires p) d = Inr d'"
    and G': "\<And>k. set (dict_get d' k) = set (dict_get d k) \<union>
        {n. n = pkg_name p \<and> k \<noteq> [] \<and> k \<noteq> pkg_name p \<and>
            (\<exists>s \<in> set (pkg_requires p). bare_name_spec s = k)}"
    using index_requires_get [of "pkg_name p" "pkg_requires p" d] by blast
  from Cons.IH [of d'] obtain R where
    R: "index_packages pkgs d' = Inr R"
    and G: "\<And>k. set (dict_get R k) = set (dict_get d' k) \<union>
        {n. \<exists>A \<in> set pkgs. n = pkg_name A \<and> k \<noteq> [] \<and> k \<noteq> pkg_name A \<and>
              (\<exists>s \<in> set (pkg_requires A). bare_name_spec s = k)}"
    by blast
  have d'_eq: "d' = d" if "pkg_requires p = []"
    using d' that by simp
  have "index_packages (p # pkgs) d = Inr R"
    using R d' d'_eq by auto
  moreover have "set (dict_get R k) = set (dict_get d k) \<union>
        {n. \<exists>A \<in> set (p # pkgs). n = pkg_name A \<and> k \<noteq> [] \<and> k \<noteq> pkg_name A \<and>
              (\<exists>s \<in> set (pkg_requires A). bare_name_spec s = k)}" for k
    unfolding G [of k] G' [of k] by auto
  ultimately show ?case by blast
qed

lemma build_reverse_deps_get:
  "\<exists>R. build_reverse_deps pkgs = Inr R \<and>
     (\<forall>k. set (dict_get R k) =
        {n. \<exists>A \<in> set pkgs. n = pkg_name A \<and> k \<noteq> [] \<and> k \<noteq> pkg_name A \<and>
              (\<exists>s \<in> set (pkg_requires A). bare_name_spec s = k)})"
  using index_packages_get [of pkgs "[]"] by (simp add: build_reverse_deps_def dict_get_def)

text \<open>
  Claim C2. The indexer never raises, whatever the requirement strings are. For a package
  \<open>A\<close> of the scanned list and a requirement string \<open>s\<close> of \<open>A\<close>, with \<open>b\<close> the
  stripped prefix of \<open>s\<close> before its first delimiter: when \<open>b\<close> is not empty and is not
  the name of \<open>A\<close>, the name of \<open>A\<close> is in the entry of \<open>b\<close>; when \<open>b\<close> is empty or is
  the name of \<open>A\<close>, the name of \<open>A\<close> is not in the entry of \<open>b\<close>.
\<close>

theorem reverse_deps_records_dependers:
  "\<exists>R. build_reverse_deps packages = Inr R \<and>
     (A \<in> set packages \<and> s \<in> set (pkg_requires A) \<longrightarrow>
        (bare_name_spec s \<noteq> [] \<and> bare_name_spec s \<noteq> pkg_name A \<longrightarrow>
           pkg_name A \<in> set (dict_get R (bare_name_spec s))) \<and>
        (bare_name_spec s = [] \<or> bare_name_spec s = pkg_name A \<longrightarrow>
           pkg_name A \<notin> set (dict_get R (bare_name_spec s))))"
proof -
  obtain R where R: "build_reverse_deps packages = Inr R"
    and G: "\<And>k. set (dict_get R k) =
        {n. \<exists>A \<in> set packages. n = pkg_name A \<and> k \<noteq> [] \<and> k \<noteq> pkg_name A \<and>
              (\<exists>s \<in> set (pkg_requires A). bare_name_spec s = k)}"
    using build_reverse_deps_get [of packages] by blast
  show ?thesis
    unfolding R by (auto simp: G)
qed

theorem reverse_deps_records_dependers_witness:
  "mk_package ''A'' ''1.0'' [''b>=1.0''] \<in> set [mk_package ''A'' ''1.0'' [''b>=1.0''], mk_package ''b'' ''1.2'' []] \<and>
   ustr ''b>=1.0'' \<in> set (pkg_requires (mk_package ''A'' ''1.0'' [''b>=1.0''])) \<and>
   bare_name_spec (ustr ''b>=1.0'') = ustr ''b'' \<and>
   (\<exists>R. build_reverse_deps [mk_package ''A'' ''1.0'' [''b>=1.0''], mk_package ''b'' ''1.2'' []] = Inr R \<and>
        ustr ''A'' \<in> set (dict_get R (ustr ''b'')))"
proof -
  have b: "bare_name_spec (ustr ''b>=1.0'') = ustr ''b''"
    by (simp add: bare_name_spec_def strip_def ustr_def is_space_def)
  show ?thesis
    using reverse_deps_records_dependers
      [of "[mk_package ''A'' ''1.0'' [''b>=1.0''], mk_package ''b'' ''1.2'' []]"
          "mk_package ''A'' ''1.0'' [''b>=1.0'']" "ustr ''b>=1.0''"]
    unfolding b by (simp add: mk_package_def ustr_def)
qed

section \<open>The scan coordinator\<close>

lemma scan_id_emit [simp]: "current_scan_id (emit e st) = current_scan_id st"
  by (simp add: emit_def)

lemma scan_id_apply_load_result [simp]:
  "current_scan_id (apply_load_result lower r st) = current_scan_id st"
  by (cases r) (simp add: apply_load_result_def Let_def)

lemma step_mono: "current_scan_id st \<le> current_scan_id (step lower e st)"
  by (cases e)
     (auto simp: start_full_refresh_chain_def check_for_updates_only_def
        on_interpreter_selected_def initial_load_def on_installed_loaded_def
        on_packages_loaded_then_check_def on_outdated_checked_def update_task_def Let_def
        split: option.splits prod.splits)

lemma run_mono: "current_scan_id st \<le> current_scan_id (run lower es st)"
  unfolding run_def
proof (induction es arbitrary: st)
  case Nil
  then show ?case by simp
next
  case (Cons e es)
  have "current_scan_id st \<le> current_scan_id (step lower e st)" by (rule step_mono)
  also have "\<dots> \<le> current_scan_id (fold (step lower) es (step lower e st))" by (rule Cons.IH)
  finally show ?case by simp
qed

lemma launched_stamp_current:
  "launched_stamp e st = Some G \<Longrightarrow> current_scan_id (step lower e st) = G \<and> G = current_scan_id st + 1"
  by (cases e)
     (auto simp: start_full_refresh_chain_def check_for_updates_only_def
        initial_load_def Let_def split: option.splits prod.splits if_splits)

lemma supersedes_advances:
  assumes "supersedes e st"
  shows "current_scan_id (step lower e st) = current_scan_id st + 1"
proof (cases "launched_stamp e st")
  case (Some G)
  then show ?thesis using launched_stamp_current [of e st G lower] by simp
next
  case None
  then obtain i where "e = InterpreterSelected i" and "i \<noteq> current_interpreter st"
    using assms unfolding supersedes_def by (cases e) simp_all
  then show ?thesis by (simp add: on_interpreter_selected_def Let_def)
qed

lemma superseded_stamp_behind:
  assumes "launched_stamp e1 st0 = Some G" and "supersedes e2 (run lower es1 (step lower e1 st0))"
  shows "G < current_scan_id (run lower es2 (step lower e2 (run lower es1 (step lower e1 st0))))"
proof -
  define st1 where "st1 = run lower es1 (step lower e1 st0)"
  have "G = current_scan_id (step lower e1 st0)"
    using assms(1) launched_stamp_current [of e1 st0 G lower] by simp
  also have "\<dots> \<le> current_scan_id st1"
    unfolding st1_def by (rule run_mono)
  also have "\<dots> < current_scan_id (step lower e2 st1)"
    using assms(2) supersedes_advances [of e2 st1] by (simp add: st1_def)
  also have "\<dots> \<le> current_scan_id (run lower es2 (step lower e2 st1))"
    by (rule run_mono)
  finally show ?thesis by (simp add: st1_def)
qed

lemma stale_steps:
  assumes "G \<noteq> current_scan_id st"
  shows "step lower (InstalledLoaded result G) st = st"
    and "step lower (PackagesLoadedThenCheck result G) st = st"
    and "step lower (OutdatedChecked outdated_map G) st = st"
  using assms
  by (simp_all add: on_installed_loaded_def on_packages_loaded_then_check_def
      on_outdated_checked_def)

text \<open>
  Claim C1. A callback of a package scan or of an outdated check whose stamp is not the
  current generation returns the state it was given: the packages, the reverse index, the
  outdated map and everything else are the same, and nothing is done to the widgets.
  A scan started with stamp \<open>G\<close> is behind the current generation from the moment a later
  event starts another scan or switches the environment, whatever happens in between and
  afterwards; so only the results of the scan requested last can be applied.
\<close>

theorem stale_scan_discarded:
  "(scan_id \<noteq> current_scan_id st \<longrightarrow>
      on_installed_loaded lower result scan_id st = st \<and>
      on_packages_loaded_then_check lower result scan_id st = st \<and>
      on_outdated_checked outdated_map scan_id st = st) \<and>
   (launched_stamp e1 st0 = Some G \<and> supersedes e2 (run lower es1 (step lower e1 st0)) \<longrightarrow>
      G < current_scan_id (run lower es2 (step lower e2 (run lower es1 (step lower e1 st0)))) \<and>
      step lower (InstalledLoaded result G) (run lower es2 (step lower e2 (run lower es1 (step lower e1 st0))))
        = run lower es2 (step lower e2 (run lower es1 (step lower e1 st0))) \<and>
      step lower (PackagesLoadedThenCheck result G) (run lower es2 (step lower e2 (run lower es1 (step lower e1 st0))))
        = run lower es2 (step lower e2 (run lower es1 (step lower e1 st0))) \<and>
      step lower (OutdatedChecked outdated_map G) (run lower es2 (step lower e2 (run lower es1 (step lower e1 st0))))
        = run lower es2 (step lower e2 (run lower es1 (step lower e1 st0))))"
proof (rule conjI; rule impI)
  assume "scan_id \<noteq> current_scan_id st"
  then show "on_installed_loaded lower result scan_id st = st \<and>
      on_packages_loaded_then_check lower result scan_id st = st \<and>
      on_outdated_checked outdated_map scan_id st = st"
    by (simp add: on_installed_loaded_def on_packages_loaded_then_check_def
      on_outdated_checked_def)
next
  let ?st2 = "run lower es2 (step lower e2 (run lower es1 (step lower e1 st0)))"
  assume a: "launched_stamp e1 st0 = Some G \<and> supersedes e2 (run lower es1 (step lower e1 st0))"
  have lt: "G < current_scan_id ?st2"
    by (rule superseded_stamp_behind [OF conjunct1 [OF a] conjunct2 [OF a]])
  then have ne: "G \<noteq> current_scan_id ?st2" by simp
  show "G < current_scan_id ?st2 \<and>
      step lower (InstalledLoaded result G) ?st2 = ?st2 \<and>
      step lower (PackagesLoadedThenCheck result G) ?st2 = ?st2 \<and>
      step lower (OutdatedChecked outdated_map G) ?st2 = ?st2"
    by (intro conjI lt stale_steps [OF ne])
qed

theorem stale_scan_discarded_witness:
  "(1 \<noteq> current_scan_id (step ascii_lower RefreshInstalledOnly loaded_state) \<and>
    launched_stamp RefreshInstalledOnly loaded_state = Some 2 \<and>
    supersedes CheckForUpdatesOnly
      (run ascii_lower [UpdateTask Ready 2] (step ascii_lower RefreshInstalledOnly loaded_state))) \<and>
   on_installed_loaded ascii_lower ([mk_package ''pip'' ''24.0'' []], [], []) 1
       (step ascii_lower RefreshInstalledOnly loaded_state) = step ascii_lower RefreshInstalledOnly loaded_state \<and>
   step ascii_lower (InstalledLoaded ([mk_package ''pip'' ''24.0'' []], [], []) 2)
       (run ascii_lower [] (step ascii_lower CheckForUpdatesOnly
          (run ascii_lower [UpdateTask Ready 2] (step ascii_lower RefreshInstalledOnly loaded_state))))
     = run ascii_lower [] (step ascii_lower CheckForUpdatesOnly
          (run ascii_lower [UpdateTask Ready 2] (step ascii_lower RefreshInstalledOnly loaded_state)))"
proof -
  have id1: "current_scan_id loaded_state = 1"
    by (simp add: loaded_state_def initial_state_def)
  have h1: "1 \<noteq> current_scan_id (step ascii_lower RefreshInstalledOnly loaded_state)"
    by (simp add: start_full_refresh_chain_def Let_def id1)
  have h2: "launched_stamp RefreshInstalledOnly loaded_state = Some 2"
    by (simp add: id1)
  have h3: "supersedes CheckForUpdatesOnly
      (run ascii_lower [UpdateTask Ready 2] (step ascii_lower RefreshInstalledOnly loaded_state))"
    by (simp add: supersedes_def run_def update_task_def start_full_refresh_chain_def
        Let_def emit_def loaded_state_def initial_state_def)
  show ?thesis
    using h1 h2 h3 stale_scan_discarded [where scan_id = 1
      and st = "step ascii_lower RefreshInstalledOnly loaded_state" and lower = ascii_lower
      and result = "([mk_package ''pip'' ''24.0'' []], [], [])" and outdated_map = "[]"
      and ?e1.0 = RefreshInstalledOnly and ?st0.0 = loaded_state and G = 2
      and ?e2.0 = CheckForUpdatesOnly and ?es1.0 = "[UpdateTask Ready 2]" and ?es2.0 = "[]"]
    by blast
qed

section \<open>Orphaned packages\<close>

lemma nonempty_dd_append: "nonempty_entries d \<Longrightarrow> nonempty_entries (dd_append k v d)"
  unfolding nonempty_entries_def
  by (induction k v d rule: dd_append.induct) auto

lemma nonempty_index_requires:
  "nonempty_entries d \<Longrightarrow> index_requires nm rs d = Inr R \<Longrightarrow> nonempty_entries R"
proof (induction rs arbitrary: d)
  case Nil
  then show ?case by simp
next
  case (Cons r rs)
  let ?d = "if bare_name_spec r \<noteq> [] \<and> bare_name_spec r \<noteq> nm
            then dd_append (bare_name_spec r) nm d else d"
  have "nonempty_entries ?d"
    using Cons.prems(1) by (simp add: nonempty_dd_append)
  moreover have "index_requires nm rs ?d = Inr R"
    using Cons.prems(2) by (simp add: req_name_of_spec)
  ultimately show ?case by (rule Cons.IH)
qed

lemma nonempty_index_packages:
  "nonempty_entries d \<Longrightarrow> index_packages pkgs d = Inr R \<Longrightarrow> nonempty_entries R"
proof (induction pkgs arbitrary: d)
  case Nil
  then show ?case by simp
next
  case (Cons p pkgs)
  then show ?case
    by (auto split: if_splits sum.splits dest: nonempty_index_requires)
qed

lemma keys_iff_get:
  assumes "nonempty_entries d"
  shows "k \<in> set (dict_keys d) \<longleftrightarrow> dict_get d k \<noteq> []"
proof
  assume "k \<in> set (dict_keys d)"
  then obtain vs where vs: "map_of d k = Some vs"
    unfolding dict_keys_def using map_of_eq_None_iff [of d k] by auto
  then have "(k, vs) \<in> set d" by (rule map_of_SomeD)
  then have "vs \<noteq> []" using assms unfolding nonempty_entries_def by auto
  then show "dict_get d k \<noteq> []" by (simp add: dict_get_def vs)
next
  assume "dict_get d k \<noteq> []"
  then have "map_of d k \<noteq> None" by (auto simp: dict_get_def split: option.splits)
  then show "k \<in> set (dict_keys d)"
    unfolding dict_keys_def by (simp add: map_of_eq_None_iff)
qed

lemma build_reverse_deps_keys:
  assumes "build_reverse_deps packages = Inr R"
  shows "set (dict_keys R) =
     {k. k \<noteq> [] \<and> (\<exists>A \<in> set packages. k \<noteq> pkg_name A \<and>
              (\<exists>s \<in> set (pkg_requires A). bare_name_spec s = k))}"
proof -
  have ne: "nonempty_entries R"
    using assms nonempty_index_packages [of "[]" packages R]
    by (simp add: build_reverse_deps_def nonempty_entries_def)
  have G: "set (dict_get R k) =
        {n. \<exists>A \<in> set packages. n = pkg_name A \<and> k \<noteq> [] \<and> k \<noteq> pkg_name A \<and>
              (\<exists>s \<in> set (pkg_requires A). bare_name_spec s = k)}" for k
    using build_reverse_deps_get [of packages] assms by auto
  have "k \<in> set (dict_keys R) \<longleftrightarrow> k \<noteq> [] \<and> (\<exists>A \<in> set packages. k \<noteq> pkg_name A \<and>
              (\<exists>s \<in> set (pkg_requires A). bare_name_spec s = k))" for k
  proof -
    have "k \<in> set (dict_keys R) \<longleftrightarrow> set (dict_get R k) \<noteq> {}"
      using keys_iff_get [OF ne] by simp
    also have "\<dots> \<longleftrightarrow> k \<noteq> [] \<and> (\<exists>A \<in> set packages. k \<noteq> pkg_name A \<and>
              (\<exists>s \<in> set (pkg_requires A). bare_name_spec s = k))"
      unfolding G by auto
    finally show ?thesis .
  qed
  then show ?thesis by auto
qed

lemma set_sorted_by_name [simp]: "set (sorted_by_name lower ps) = set ps"
  by (simp add: sorted_by_name_def)

lemma orphan_cache_names:
  assumes "all_packages st \<noteq> []"
  shows "set (map pkg_name (orphaned_packages_cache (find_orphaned_packages lower st))) =
           orphan_names (all_packages st) (reverse_deps st)"
proof -
  have "orphaned_packages_cache (find_orphaned_packages lower st) =
      sorted_by_name lower (filter (\<lambda>pkg. pkg_name pkg \<in> orphan_names (all_packages st) (reverse_deps st))
         (all_packages st))"
    using assms by (simp add: find_orphaned_packages_def Let_def emit_def)
  moreover have "orphan_names (all_packages st) (reverse_deps st) \<subseteq> pkg_name ` set (all_packages st)"
    by (auto simp: orphan_names_def Let_def)
  ultimately show ?thesis by auto
qed

text \<open>
  Claim C3. The orphan names are the installed names, minus the keys of the reverse
  index, minus \<open>pip\<close>, \<open>setuptools\<close> and \<open>wheel\<close>; the cache that
  \<open>find_orphaned_packages\<close> fills holds the packages with exactly these names. In the
  index that the scan builds, a key is a name with at least one dependent. An
  allowlisted name is never an orphan, and a name with a dependent is never an orphan,
  whether that dependent is an orphan or not: nothing is closed transitively.
\<close>

theorem orphans_are_set_difference:
  "orphan_names packages rd =
      set (map pkg_name packages) - set (dict_keys rd)
        - {ustr ''pip'', ustr ''setuptools'', ustr ''wheel''} \<and>
   (all_packages st \<noteq> [] \<longrightarrow>
      set (map pkg_name (orphaned_packages_cache (find_orphaned_packages lower st))) =
        set (map pkg_name (all_packages st)) - set (dict_keys (reverse_deps st))
          - {ustr ''pip'', ustr ''setuptools'', ustr ''wheel''}) \<and>
   (build_reverse_deps packages = Inr R \<longrightarrow>
      set (dict_keys R) = {k. dict_get R k \<noteq> []} \<and>
      orphan_names packages R =
        {n \<in> set (map pkg_name packages).
            n = [] \<or> \<not> (\<exists>A \<in> set packages. n \<noteq> pkg_name A \<and>
                 (\<exists>s \<in> set (pkg_requires A). bare_name_spec s = n))}
          - {ustr ''pip'', ustr ''setuptools'', ustr ''wheel''}) \<and>
   (n \<in> {ustr ''pip'', ustr ''setuptools'', ustr ''wheel''} \<longrightarrow> n \<notin> orphan_names packages rd) \<and>
   (n \<in> set (dict_keys rd) \<longrightarrow> n \<notin> orphan_names packages rd)"
proof -
  have 1: "orphan_names packages rd =
      set (map pkg_name packages) - set (dict_keys rd)
        - {ustr ''pip'', ustr ''setuptools'', ustr ''wheel''}" for packages rd
    by (simp add: orphan_names_def essential_packages_def Let_def)
  have 2: "set (map pkg_name (orphaned_packages_cache (find_orphaned_packages lower st))) =
        set (map pkg_name (all_packages st)) - set (dict_keys (reverse_deps st))
          - {ustr ''pip'', ustr ''setuptools'', ustr ''wheel''}" if "all_packages st \<noteq> []"
    using orphan_cache_names [OF that] 1 by simp
  have 3: "set (dict_keys R) = {k. dict_get R k \<noteq> []} \<and>
      orphan_names packages R =
        {n \<in> set (map pkg_name packages).
            n = [] \<or> \<not> (\<exists>A \<in> set packages. n \<noteq> pkg_name A \<and>
                 (\<exists>s \<in> set (pkg_requires A). bare_name_spec s = n))}
          - {ustr ''pip'', ustr ''setuptools'', ustr ''wheel''}"
    if R: "build_reverse_deps packages = Inr R"
  proof
    have "nonempty_entries R"
      using R nonempty_index_packages [of "[]" packages R]
      by (simp add: build_reverse_deps_def nonempty_entries_def)
    then show "set (dict_keys R) = {k. dict_get R k \<noteq> []}"
      using keys_iff_get by blast
    show "orphan_names packages R =
        {n \<in> set (map pkg_name packages).
            n = [] \<or> \<not> (\<exists>A \<in> set packages. n \<noteq> pkg_name A \<and>
                 (\<exists>s \<in> set (pkg_requires A). bare_name_spec s = n))}
          - {ustr ''pip'', ustr ''setuptools'', ustr ''wheel''}"
      unfolding 1 build_reverse_deps_keys [OF R] by auto
  qed
  have 4: "n \<notin> orphan_names packages rd" if "n \<in> {ustr ''pip'', ustr ''setuptools'', ustr ''wheel''}"
    using that unfolding 1 by blast
  have 5: "n \<notin> orphan_names packages rd" if "n \<in> set (dict_keys rd)"
    using that unfolding 1 by blast
  show ?thesis
    by (intro conjI impI 1 2 4 5 conjunct1 [OF 3] conjunct2 [OF 3])
qed

theorem orphans_are_set_difference_witness:
  "all_packages loaded_state \<noteq> [] \<and>
   build_reverse_deps (all_packages loaded_state) = Inr (reverse_deps loaded_state) \<and>
   ustr ''pip'' \<in> {ustr ''pip'', ustr ''setuptools'', ustr ''wheel''} \<and>
   ustr ''urllib3'' \<in> set (dict_keys (reverse_deps loaded_state)) \<and>
   dict_get (reverse_deps loaded_state) (ustr ''pip'') = [] \<and>
   ustr ''pip'' \<notin> orphan_names (all_packages loaded_state) (reverse_deps loaded_state) \<and>
   ustr ''urllib3'' \<notin> orphan_names (all_packages loaded_state) (reverse_deps loaded_state) \<and>
   orphan_names (all_packages loaded_state) (reverse_deps loaded_state) = {ustr ''requests''} \<and>
   set (map pkg_name (orphaned_packages_cache (find_orphaned_packages ascii_lower loaded_state))) =
     {ustr ''requests''}"
proof -
  have pk: "all_packages loaded_state =
      [mk_package ''pip'' ''24.0'' [], mk_package ''requests'' ''2.31.0'' [''urllib3<3,>=1.21.1''],
       mk_package ''urllib3'' ''2.0.7'' []]"
    by (simp add: loaded_state_def initial_state_def)
  have rd: "reverse_deps loaded_state = [(ustr ''urllib3'', [ustr ''requests''])]"
    by (simp add: loaded_state_def initial_state_def)
  have b: "build_reverse_deps (all_packages loaded_state) = Inr (reverse_deps loaded_state)"
    unfolding pk rd
    by (simp add: build_reverse_deps_def mk_package_def req_name_of_def ustr_def
        is_req_delim_def strip_def is_space_def)
  have h1: "all_packages loaded_state \<noteq> []"
    by (simp add: pk)
  have h3: "ustr ''urllib3'' \<in> set (dict_keys (reverse_deps loaded_state))"
    by (simp add: rd dict_keys_def)
  have g: "dict_get (reverse_deps loaded_state) (ustr ''pip'') = []"
    unfolding rd by (simp add: dict_get_def ustr_def)
  have o: "set (map pkg_name (all_packages loaded_state)) - set (dict_keys (reverse_deps loaded_state))
        - {ustr ''pip'', ustr ''setuptools'', ustr ''wheel''} = {ustr ''requests''}"
    unfolding pk rd by (simp add: mk_package_def dict_keys_def ustr_def insert_Diff_if)
  have hp: "ustr ''pip'' \<in> {ustr ''pip'', ustr ''setuptools'', ustr ''wheel''}"
    by (rule insertI1)
  note T1 = orphans_are_set_difference [where packages = "all_packages loaded_state"
        and rd = "reverse_deps loaded_state" and st = loaded_state and lower = ascii_lower
        and R = "reverse_deps loaded_state" and n = "ustr ''pip''"]
  note T2 = orphans_are_set_difference [where packages = "all_packages loaded_state"
        and rd = "reverse_deps loaded_state" and st = loaded_state and lower = ascii_lower
        and R = "reverse_deps loaded_state" and n = "ustr ''urllib3''"]
  have c1: "orphan_names (all_packages loaded_state) (reverse_deps loaded_state) =
      {ustr ''requests''}"
    by (rule trans [OF conjunct1 [OF T1] o])
  have c2: "set (map pkg_name (orphaned_packages_cache (find_orphaned_packages ascii_lower loaded_state))) =
     {ustr ''requests''}"
    by (rule trans [OF mp [OF conjunct1 [OF conjunct2 [OF T1]] h1] o])
  have c3: "ustr ''pip'' \<notin> orphan_names (all_packages loaded_state) (reverse_deps loaded_state)"
    by (rule mp [OF conjunct1 [OF conjunct2 [OF conjunct2 [OF conjunct2 [OF T1]]]] hp])
  have c4: "ustr ''urllib3'' \<notin> orphan_names (all_packages loaded_state) (reverse_deps loaded_state)"
    by (rule mp [OF conjunct2 [OF conjunct2 [OF conjunct2 [OF conjunct2 [OF T2]]]] h3])
  show ?thesis
    by (intro conjI h1 b hp h3 g c3 c4 c1 c2)
qed

section \<open>Outdated lookup\<close>

lemma find_normalized_None:
  "find_normalized lower n items = None \<longleftrightarrow> (\<forall>k \<in> set (dict_keys items). normalized lower k \<noteq> n)"
proof (induction items)
  case Nil
  then show ?case by (simp add: dict_keys_def)
next
  case (Cons item items)
  obtain k i where item: "item = (k, i)" by (cases item)
  show ?case
    using Cons.IH by (simp add: item dict_keys_def)
qed

lemma find_normalized_Some:
  "find_normalized lower n items = Some info \<Longrightarrow>
     \<exists>k. (k, info) \<in> set items \<and> normalized lower k = n"
  by (induction items) (auto split: if_splits)

lemma map_of_distinct_keys:
  "distinct (dict_keys d) \<Longrightarrow> (k, v) \<in> set d \<Longrightarrow> map_of d k = Some v"
  by (simp add: dict_keys_def)

lemma dropWhile_run:
  assumes "\<forall>c \<in> set dashes. P c" and "ys = [] \<or> \<not> P (hd ys)"
  shows "dropWhile P (dashes @ ys) = ys"
proof -
  have "dropWhile P (dashes @ ys) = dropWhile P ys"
    using assms(1) by (simp add: dropWhile_append)
  also have "\<dots> = ys" using assms(2) by (cases ys) auto
  finally show ?thesis .
qed

lemma last_dropWhile: "dropWhile P cs \<noteq> [] \<Longrightarrow> last (dropWhile P cs) = last cs"
  by (induction cs) auto

lemma dropWhile_append_keep:
  "dropWhile P cs \<noteq> [] \<Longrightarrow> dropWhile P (cs @ zs) = dropWhile P cs @ zs"
  by (induction cs) auto

lemma sub_dash_dot_run:
  assumes "dashes \<noteq> []" and "\<forall>c \<in> set dashes. is_dash_dot c"
    and "ys = [] \<or> \<not> is_dash_dot (hd ys)"
  shows "xs = [] \<or> \<not> is_dash_dot (last xs) \<Longrightarrow>
     sub_dash_dot (xs @ dashes @ ys) = sub_dash_dot xs @ ustr ''_'' @ sub_dash_dot ys"
proof (induction xs rule: sub_dash_dot.induct)
  case 1
  obtain r rs where dashes: "dashes = r # rs" using assms(1) by (cases dashes) auto
  have "dropWhile is_dash_dot (rs @ ys) = ys"
    using assms(2,3) dashes by (intro dropWhile_run) auto
  then show ?case using assms(2) dashes by simp
next
  case (2 c cs)
  show ?case
  proof (cases "is_dash_dot c")
    case False
    have "cs = [] \<or> \<not> is_dash_dot (last cs)"
      using "2.prems" by (auto split: if_splits)
    then show ?thesis using "2.IH"(2) False by simp
  next
    case True
    let ?cs' = "dropWhile is_dash_dot cs"
    have ne: "?cs' \<noteq> []"
    proof
      assume "?cs' = []"
      then have "\<forall>x \<in> set cs. is_dash_dot x" by (simp add: dropWhile_eq_Nil_conv)
      then have "is_dash_dot (last (c # cs))" using True by (cases cs) auto
      then show False using "2.prems" by simp
    qed
    have lastcs: "last ?cs' = last (c # cs)"
      using ne last_dropWhile [of is_dash_dot cs] by auto
    have dw: "dropWhile is_dash_dot (cs @ dashes @ ys) = ?cs' @ dashes @ ys"
      using ne by (rule dropWhile_append_keep)
    have "sub_dash_dot (?cs' @ dashes @ ys) = sub_dash_dot ?cs' @ ustr ''_'' @ sub_dash_dot ys"
      using "2.IH"(1) [OF True] "2.prems" lastcs by auto
    then show ?thesis using True dw by simp
  qed
qed

lemma sub_dash_dot_id: "\<forall>c \<in> set s. \<not> is_dash_dot c \<Longrightarrow> sub_dash_dot s = s"
  by (induction s) auto

text \<open>
  Claim C8. For every lower-casing function: the lookup returns the entry under the
  exact key when there is one. When there is none and some key has the normalized form
  of the package name, it returns an entry whose key has that normalized form. It
  returns \<open>None\<close> exactly when neither match exists. The normalized form is the string
  in which every maximal run of \<open>-\<close> and \<open>.\<close> has become one \<open>_\<close>, lower-cased.
  With a lower-casing that does on ASCII strings what \<open>str.lower\<close> does, the package
  \<open>My-Package\<close> finds the entry keyed \<open>my_package\<close>.
\<close>

theorem outdated_lookup_exact_then_normalized:
  "(distinct (dict_keys outdated) \<and> (pkg, info) \<in> set outdated \<longrightarrow>
      is_package_outdated lower outdated pkg = Some info) \<and>
   (pkg \<notin> set (dict_keys outdated) \<and> (k, info) \<in> set outdated \<and>
    normalized lower k = normalized lower pkg \<longrightarrow>
      (\<exists>k' info'. is_package_outdated lower outdated pkg = Some info' \<and>
          (k', info') \<in> set outdated \<and> normalized lower k' = normalized lower pkg)) \<and>
   (is_package_outdated lower outdated pkg = None \<longleftrightarrow>
      pkg \<notin> set (dict_keys outdated) \<and>
      (\<forall>k \<in> set (dict_keys outdated). normalized lower k \<noteq> normalized lower pkg)) \<and>
   normalized lower s = lower (sub_dash_dot s) \<and>
   (dashes \<noteq> [] \<and> (\<forall>c \<in> set dashes. c \<in> set (ustr ''-.'')) \<and>
    (xs = [] \<or> last xs \<notin> set (ustr ''-.'')) \<and> (ys = [] \<or> hd ys \<notin> set (ustr ''-.'')) \<longrightarrow>
      sub_dash_dot (xs @ dashes @ ys) = sub_dash_dot xs @ ustr ''_'' @ sub_dash_dot ys) \<and>
   ((\<forall>c \<in> set s. c \<notin> set (ustr ''-.'')) \<longrightarrow> sub_dash_dot s = s) \<and>
   (lowers_ascii lower \<longrightarrow>
      is_package_outdated lower [(ustr ''my_package'', info)] (ustr ''My-Package'') = Some info)"
proof -
  have 1: "is_package_outdated lower outdated pkg = Some info"
    if "distinct (dict_keys outdated) \<and> (pkg, info) \<in> set outdated"
  proof -
    have "pkg \<in> set (dict_keys outdated)"
      using that by (force simp: dict_keys_def)
    then show ?thesis
      using that map_of_distinct_keys [of outdated pkg info]
      by (simp add: is_package_outdated_def)
  qed
  have 2: "\<exists>k' info'. is_package_outdated lower outdated pkg = Some info' \<and>
          (k', info') \<in> set outdated \<and> normalized lower k' = normalized lower pkg"
    if a: "pkg \<notin> set (dict_keys outdated) \<and> (k, info) \<in> set outdated \<and>
      normalized lower k = normalized lower pkg"
  proof -
    have "k \<in> set (dict_keys outdated)"
      using a by (force simp: dict_keys_def)
    then have "find_normalized lower (normalized lower pkg) outdated \<noteq> None"
      using a find_normalized_None [of lower "normalized lower pkg" outdated] by auto
    then obtain i where i: "find_normalized lower (normalized lower pkg) outdated = Some i"
      by blast
    from find_normalized_Some [OF i]
    obtain k' where "(k', i) \<in> set outdated" and "normalized lower k' = normalized lower pkg"
      by (elim exE conjE)
    then show ?thesis
      using a i by (auto simp: is_package_outdated_def)
  qed
  have 3: "is_package_outdated lower outdated pkg = None \<longleftrightarrow>
      pkg \<notin> set (dict_keys outdated) \<and>
      (\<forall>k \<in> set (dict_keys outdated). normalized lower k \<noteq> normalized lower pkg)"
  proof (cases "pkg \<in> set (dict_keys outdated)")
    case True
    then have "map_of outdated pkg \<noteq> None"
      by (simp add: dict_keys_def map_of_eq_None_iff)
    then show ?thesis using True by (simp add: is_package_outdated_def)
  next
    case False
    then show ?thesis
      using find_normalized_None [of lower "normalized lower pkg" outdated]
      by (auto simp: is_package_outdated_def)
  qed
  have 4: "normalized lower s = lower (sub_dash_dot s)"
    by (simp add: normalized_def)
  have 5: "sub_dash_dot (xs @ dashes @ ys) = sub_dash_dot xs @ ustr ''_'' @ sub_dash_dot ys"
    if "dashes \<noteq> [] \<and> (\<forall>c \<in> set dashes. c \<in> set (ustr ''-.'')) \<and>
    (xs = [] \<or> last xs \<notin> set (ustr ''-.'')) \<and> (ys = [] \<or> hd ys \<notin> set (ustr ''-.''))"
    using that by (intro sub_dash_dot_run) (auto simp: is_dash_dot_def)
  have 6: "sub_dash_dot s = s" if "\<forall>c \<in> set s. c \<notin> set (ustr ''-.'')"
    using that sub_dash_dot_id [of s] by (simp add: is_dash_dot_def)
  have 7: "is_package_outdated lower [(ustr ''my_package'', info)] (ustr ''My-Package'') = Some info"
    if l: "lowers_ascii lower"
  proof -
    have s1: "sub_dash_dot (ustr ''My-Package'') = ustr ''My_Package''"
      by (simp add: ustr_def is_dash_dot_def)
    have s2: "sub_dash_dot (ustr ''my_package'') = ustr ''my_package''"
      by (simp add: ustr_def is_dash_dot_def)
    have "lower (ustr ''My_Package'') = ascii_lower (ustr ''My_Package'')"
      using l unfolding lowers_ascii_def by (simp add: ustr_def)
    then have n1: "normalized lower (ustr ''My-Package'') = ustr ''my_package''"
      by (simp add: normalized_def s1) (simp add: ascii_lower_def lower_cp_def ustr_def)
    have "lower (ustr ''my_package'') = ascii_lower (ustr ''my_package'')"
      using l unfolding lowers_ascii_def by (simp add: ustr_def)
    then have n2: "normalized lower (ustr ''my_package'') = ustr ''my_package''"
      by (simp add: normalized_def s2) (simp add: ascii_lower_def lower_cp_def ustr_def)
    have ne: "ustr ''My-Package'' \<noteq> ustr ''my_package''"
      by (simp add: ustr_def)
    show ?thesis
      using ne by (simp add: is_package_outdated_def dict_keys_def n1 n2)
  qed
  show ?thesis
    by (intro conjI 3 4; (rule impI)?; (rule 1 | rule 2 | rule 5 | rule 6 | rule 7)?; assumption?)
qed

theorem outdated_lookup_exact_then_normalized_witness:
  "is_package_outdated ascii_lower [(ustr ''my_package'', [(ustr ''latest_version'', ustr ''2.0'')])]
       (ustr ''my_package'') = Some [(ustr ''latest_version'', ustr ''2.0'')] \<and>
   normalized ascii_lower (ustr ''my_package'') = normalized ascii_lower (ustr ''My-Package'') \<and>
   (\<exists>k' info'.
       is_package_outdated ascii_lower [(ustr ''my_package'', [(ustr ''latest_version'', ustr ''2.0'')])]
         (ustr ''My-Package'') = Some info' \<and>
       (k', info') \<in> set [(ustr ''my_package'', [(ustr ''latest_version'', ustr ''2.0'')])] \<and>
       normalized ascii_lower k' = normalized ascii_lower (ustr ''My-Package'')) \<and>
   is_package_outdated ascii_lower [(ustr ''my_package'', [(ustr ''latest_version'', ustr ''2.0'')])]
       (ustr ''My-Package'') = Some [(ustr ''latest_version'', ustr ''2.0'')] \<and>
   sub_dash_dot (ustr ''a'' @ ustr ''-.-'' @ ustr ''B'') =
     sub_dash_dot (ustr ''a'') @ ustr ''_'' @ sub_dash_dot (ustr ''B'') \<and>
   sub_dash_dot (ustr ''Ab_c'') = ustr ''Ab_c''"
proof -
  let ?O = "[(ustr ''my_package'', [(ustr ''latest_version'', ustr ''2.0'')])]"
  let ?I = "[(ustr ''latest_version'', ustr ''2.0'')]"
  note T1 = outdated_lookup_exact_then_normalized
    [where lower = ascii_lower and outdated = ?O and pkg = "ustr ''my_package''" and info = ?I
       and dashes = "ustr ''-.-''" and xs = "ustr ''a''" and ys = "ustr ''B''"
       and s = "ustr ''Ab_c''"]
  note T2 = outdated_lookup_exact_then_normalized
    [where lower = ascii_lower and outdated = ?O and pkg = "ustr ''My-Package''" and info = ?I
       and k = "ustr ''my_package''"]
  have l: "lowers_ascii ascii_lower"
    by (simp add: lowers_ascii_def)
  have h1: "distinct (dict_keys ?O) \<and> (ustr ''my_package'', ?I) \<in> set ?O"
    by (simp add: dict_keys_def)
  have h2: "ustr ''My-Package'' \<notin> set (dict_keys ?O) \<and>
      normalized ascii_lower (ustr ''my_package'') = normalized ascii_lower (ustr ''My-Package'')"
    by (simp add: dict_keys_def normalized_def ascii_lower_def lower_cp_def ustr_def is_dash_dot_def)
  have h2': "ustr ''My-Package'' \<notin> set (dict_keys ?O) \<and> (ustr ''my_package'', ?I) \<in> set ?O \<and>
      normalized ascii_lower (ustr ''my_package'') = normalized ascii_lower (ustr ''My-Package'')"
    using h1 h2 by (intro conjI) (erule conjunct1 conjunct2)+
  have h4: "ustr ''-.-'' \<noteq> [] \<and> (\<forall>c \<in> set (ustr ''-.-''). c \<in> set (ustr ''-.'')) \<and>
      (ustr ''a'' = [] \<or> last (ustr ''a'') \<notin> set (ustr ''-.'')) \<and>
      (ustr ''B'' = [] \<or> hd (ustr ''B'') \<notin> set (ustr ''-.''))"
    by (simp add: ustr_def)
  have h5: "\<forall>c \<in> set (ustr ''Ab_c''). c \<notin> set (ustr ''-.'')"
    by (simp add: ustr_def)
  have c1: "is_package_outdated ascii_lower ?O (ustr ''my_package'') = Some ?I"
    by (rule mp [OF conjunct1 [OF T1] h1])
  have c2: "\<exists>k' info'. is_package_outdated ascii_lower ?O (ustr ''My-Package'') = Some info' \<and>
       (k', info') \<in> set ?O \<and> normalized ascii_lower k' = normalized ascii_lower (ustr ''My-Package'')"
    by (rule mp [OF conjunct1 [OF conjunct2 [OF T2]] h2'])
  note R = conjunct2 [OF conjunct2 [OF conjunct2 [OF conjunct2 [OF T1]]]]
  have c5: "sub_dash_dot (ustr ''a'' @ ustr ''-.-'' @ ustr ''B'') =
      sub_dash_dot (ustr ''a'') @ ustr ''_'' @ sub_dash_dot (ustr ''B'')"
    by (rule mp [OF conjunct1 [OF R] h4])
  have c6: "sub_dash_dot (ustr ''Ab_c'') = ustr ''Ab_c''"
    by (rule mp [OF conjunct1 [OF conjunct2 [OF R]] h5])
  have c7: "is_package_outdated ascii_lower ?O (ustr ''My-Package'') = Some ?I"
    by (rule mp [OF conjunct2 [OF conjunct2 [OF R]] l])
  show ?thesis
    by (intro conjI c1 c2 c5 c6 c7 conjunct2 [OF h2])
qed

section \<open>A scan of an environment that cannot be queried\<close>

lemma environment_error_result:
  assumes "site_packages env = Inl e"
  shows "load_packages_task env interpreter scan_id =
     ([QueuedStatus FindingSitePackages scan_id,
       QueuedShowError (FailedToLocateSitePackages interpreter e)], Inr ([], [], []))"
  using assms by (simp add: load_packages_task_def)

lemma empty_result_keeps_snapshot:
  "all_packages (apply_load_result lower ([], rd, damaged) st) = all_packages st \<and>
   reverse_deps (apply_load_result lower ([], rd, damaged) st) = reverse_deps st \<and>
   damaged_packages_cache (apply_load_result lower ([], rd, damaged) st) = damaged"
  by (simp add: apply_load_result_def Let_def emit_def)

text \<open>
  Claim C4, at a failing input. The environment of \<open>broken_env\<close> cannot be queried:
  the scan queues one error box and returns the empty result. When the callback of that
  scan runs on \<open>loaded_state\<close>, whose generation is the stamp of the scan, the packages
  and the reverse index are kept, and the damaged-packages cache, which held one path,
  is replaced by the empty list (with either callback).
\<close>

theorem environment_error_clears_damaged_cache:
  "fst (load_packages_task broken_env (current_interpreter loaded_state) 1) =
     [QueuedStatus FindingSitePackages 1,
      QueuedShowError (FailedToLocateSitePackages (ustr ''/usr/bin/python3'')
         (ustr ''No such file or directory''))] \<and>
   snd (load_packages_task broken_env (current_interpreter loaded_state) 1) = Inr ([], [], []) \<and>
   current_scan_id loaded_state = 1 \<and>
   all_packages (deliver_load ascii_lower False
       (load_packages_task broken_env (current_interpreter loaded_state) 1) 1 loaded_state)
     = all_packages loaded_state \<and>
   reverse_deps (deliver_load ascii_lower False
       (load_packages_task broken_env (current_interpreter loaded_state) 1) 1 loaded_state)
     = reverse_deps loaded_state \<and>
   damaged_packages_cache loaded_state = [ustr ''/sp/bad-1.0.dist-info''] \<and>
   damaged_packages_cache (deliver_load ascii_lower False
       (load_packages_task broken_env (current_interpreter loaded_state) 1) 1 loaded_state)
     = [] \<and>
   damaged_packages_cache (deliver_load ascii_lower True
       (load_packages_task broken_env (current_interpreter loaded_state) 1) 1 loaded_state)
     = []"
proof -
  have t: "load_packages_task broken_env (current_interpreter loaded_state) 1 =
     ([QueuedStatus FindingSitePackages 1,
       QueuedShowError (FailedToLocateSitePackages (ustr ''/usr/bin/python3'')
         (ustr ''No such file or directory''))], Inr ([], [], []))"
    by (simp add: environment_error_result [where e = "ustr ''No such file or directory''"]
        broken_env_def loaded_state_def initial_state_def)
  have id1: "current_scan_id loaded_state = 1"
    by (simp add: loaded_state_def initial_state_def)
  have d: "damaged_packages_cache loaded_state = [ustr ''/sp/bad-1.0.dist-info'']"
    by (simp add: loaded_state_def initial_state_def)
  show ?thesis
    unfolding t
    by (simp add: id1 d deliver_load_def on_installed_loaded_def
        on_packages_loaded_then_check_def emit_def empty_result_keeps_snapshot)
qed

section \<open>The version sort key\<close>















lemma split_no_sep:
  "sep \<noteq> [] \<Longrightarrow> hd sep \<notin> set v \<Longrightarrow> split sep (v @ sep @ r) = v # split sep r"
proof (induction v)
  case Nil
  then show ?case by (cases sep) simp_all
next
  case (Cons x xs)
  have "\<not> prefix sep (x # xs @ sep @ r)"
    using Cons.prems by (cases sep) auto
  then show ?case using Cons by simp
qed

lemma split_absent: "sep \<noteq> [] \<Longrightarrow> hd sep \<notin> set v \<Longrightarrow> split sep v = [v]"
proof (induction v)
  case Nil
  then show ?case by simp
next
  case (Cons x xs)
  have "\<not> prefix sep (x # xs)"
    using Cons.prems by (cases sep) auto
  then show ?case using Cons by simp
qed

lemma strip_trailing_space:
  assumes "is_space c"
  shows "strip (s @ [c]) = strip s"
proof (cases "dropWhile is_space s = []")
  case True
  then have "\<forall>x \<in> set s. is_space x" by simp
  then have e: "dropWhile is_space (s @ [c]) = []"
    using assms by simp
  show ?thesis by (simp only: strip_def True e)
next
  case False
  then obtain x where "x \<in> set s" and "\<not> is_space x"
    by auto
  then have "dropWhile is_space (s @ [c]) = dropWhile is_space s @ [c]"
    by (rule dropWhile_append1)
  then show ?thesis using assms by (simp add: strip_def)
qed

lemma base_of_display:
  assumes "hd arrow \<notin> set v"
  shows "base_version_str (version_display v latest) = base_version_str v"
proof -
  have ne: "arrow \<noteq> []" by (simp add: arrow_def)
  have sp: "hd arrow \<notin> set (v @ ustr '' '')"
    using assms by (simp add: ustr_def arrow_def)
  have "split arrow ((v @ ustr '' '') @ arrow @ (ustr '' '' @ latest)) =
      (v @ ustr '' '') # split arrow (ustr '' '' @ latest)"
    by (rule split_no_sep [OF ne sp])
  then have "base_version_str (version_display v latest) = Inr (strip (v @ ustr '' ''))"
    by (simp add: base_version_str_def version_display_def)
  moreover have "strip (v @ ustr '' '') = strip v"
    using strip_trailing_space [of 32 v] by (simp add: ustr_def is_space_def)
  moreover have "base_version_str v = Inr (strip v)"
    using split_absent [OF ne assms] by (simp add: base_version_str_def)
  ultimately show ?thesis by simp
qed

lemma key_of_display:
  assumes "hd arrow \<notin> set pkg_ver"
  shows "get_version_sort_key packaging (version_display pkg_ver latest_ver) =
        get_version_sort_key packaging pkg_ver"
  using base_of_display [OF assms] by (simp add: get_version_sort_key_def)

text \<open>
  Claim C7, amended. With the \<open>packaging\<close> library the sort keys of \<open>1.9.0\<close> and
  \<open>1.10.0\<close> are their parsed versions, and \<open>1.10.0\<close> sorts strictly after
  \<open>1.9.0\<close>; without the library the sort keys are the strings themselves, and
  \<open>1.10.0\<close> sorts strictly before \<open>1.9.0\<close>.
\<close>

theorem version_order_with_and_without_packaging:
  "get_version_sort_key (Some parse_release) (ustr ''1.9.0'') = Inr (VersionKey [1, 9]) \<and>
   get_version_sort_key (Some parse_release) (ustr ''1.10.0'') = Inr (VersionKey [1, 10]) \<and>
   sorts_before (Some parse_release) (ustr ''1.9.0'') (ustr ''1.10.0'') = Inr True \<and>
   sorts_before (Some parse_release) (ustr ''1.10.0'') (ustr ''1.9.0'') = Inr False \<and>
   sort_column_version (Some parse_release) False
       [(ustr ''a'', ustr ''1.10.0''), (ustr ''b'', ustr ''1.9.0'')]
     = Inr [ustr ''b'', ustr ''a''] \<and>
   get_version_sort_key (None :: (pystr \<Rightarrow> nat list option) option) (ustr ''1.9.0'')
     = Inr (StrKey (ustr ''1.9.0'')) \<and>
   get_version_sort_key (None :: (pystr \<Rightarrow> nat list option) option) (ustr ''1.10.0'')
     = Inr (StrKey (ustr ''1.10.0'')) \<and>
   sorts_before (None :: (pystr \<Rightarrow> nat list option) option) (ustr ''1.10.0'') (ustr ''1.9.0'')
     = Inr True"
proof -
  have b9: "base_version_str (ustr ''1.9.0'') = Inr (ustr ''1.9.0'')"
    by (simp add: base_version_str_def arrow_def ustr_def strip_def is_space_def)
  have b10: "base_version_str (ustr ''1.10.0'') = Inr (ustr ''1.10.0'')"
    by (simp add: base_version_str_def arrow_def ustr_def strip_def is_space_def)
  have p9: "parse_release (ustr ''1.9.0'') = Some [1, 9]"
    by (simp add: parse_release_def ustr_def is_digit_def nat_of_digits_def)
  have p10: "parse_release (ustr ''1.10.0'') = Some [1, 10]"
    by (simp add: parse_release_def ustr_def is_digit_def nat_of_digits_def)
  have k9: "get_version_sort_key (Some parse_release) (ustr ''1.9.0'') = Inr (VersionKey [1, 9])"
    by (simp add: get_version_sort_key_def b9 p9)
  have k10: "get_version_sort_key (Some parse_release) (ustr ''1.10.0'') = Inr (VersionKey [1, 10])"
    by (simp add: get_version_sort_key_def b10 p10)
  have s1: "sorts_before (Some parse_release) (ustr ''1.9.0'') (ustr ''1.10.0'') = Inr True"
    by (simp add: sorts_before_def k9 k10)
  have s2: "sorts_before (Some parse_release) (ustr ''1.10.0'') (ustr ''1.9.0'') = Inr False"
    by (simp add: sorts_before_def k9 k10)
  have s3: "sort_column_version (Some parse_release) False
       [(ustr ''a'', ustr ''1.10.0''), (ustr ''b'', ustr ''1.9.0'')]
     = Inr [ustr ''b'', ustr ''a'']"
    by (simp add: sort_column_version_def list_sort_def k9 k10)
  have n9: "get_version_sort_key (None :: (pystr \<Rightarrow> nat list option) option) (ustr ''1.9.0'')
     = Inr (StrKey (ustr ''1.9.0''))"
    by (simp add: get_version_sort_key_def b9)
  have n10: "get_version_sort_key (None :: (pystr \<Rightarrow> nat list option) option) (ustr ''1.10.0'')
     = Inr (StrKey (ustr ''1.10.0''))"
    by (simp add: get_version_sort_key_def b10)
  have lt: "ustr ''1.10.0'' < ustr ''1.9.0''"
    by (simp add: ustr_def)
  have s4: "sorts_before (None :: (pystr \<Rightarrow> nat list option) option) (ustr ''1.10.0'') (ustr ''1.9.0'')
     = Inr True"
    using lt by (simp add: sorts_before_def n9 n10)
  show ?thesis
    by (intro conjI k9 k10 s1 s2 s3 n9 n10 s4)
qed

text \<open>
  The arrow U+2192 is not the separator of \<open>get_version_sort_key\<close>: a string with it
  is not split, and with the \<open>packaging\<close> library it gets the key of \<open>0.0.0\<close>.
\<close>

lemma right_arrow_is_not_split:
  "base_version_str (ustr ''1.9.0 '' @ [8594] @ ustr '' 2.0.0'') =
     Inr (ustr ''1.9.0 '' @ [8594] @ ustr '' 2.0.0'') \<and>
   get_version_sort_key (Some parse_release) (ustr ''1.9.0 '' @ [8594] @ ustr '' 2.0.0'') =
     get_version_sort_key (Some parse_release) (ustr ''0.0.0'')"
proof -
  have b: "base_version_str (ustr ''1.9.0 '' @ [8594] @ ustr '' 2.0.0'') =
     Inr (ustr ''1.9.0 '' @ [8594] @ ustr '' 2.0.0'')"
    by (simp add: base_version_str_def arrow_def ustr_def strip_def is_space_def)
  have bz: "base_version_str (ustr ''0.0.0'') = Inr (ustr ''0.0.0'')"
    by (simp add: base_version_str_def arrow_def ustr_def strip_def is_space_def)
  have p: "parse_release (ustr ''1.9.0 '' @ [8594] @ ustr '' 2.0.0'') = None"
    by (simp add: parse_release_def ustr_def is_digit_def)
  have pz: "parse_release (ustr ''0.0.0'') = Some []"
    by (simp add: parse_release_def ustr_def is_digit_def nat_of_digits_def)
  show ?thesis
    unfolding get_version_sort_key_def b bz sum.case option.case p pz by simp
qed

text \<open>
  Claim C7 as stated fails without the \<open>packaging\<close> library: the keys are the strings,
  and \<open>1.10.0\<close> sorts strictly before \<open>1.9.0\<close>.
\<close>

theorem version_key_lexicographic_without_packaging:
  "sorts_before (None :: (pystr \<Rightarrow> nat list option) option) (ustr ''1.10.0'') (ustr ''1.9.0'')
     = Inr True \<and>
   sorts_before (None :: (pystr \<Rightarrow> nat list option) option) (ustr ''1.9.0'') (ustr ''1.10.0'')
     = Inr False \<and>
   sort_column_version (None :: (pystr \<Rightarrow> nat list option) option) False
       [(ustr ''a'', ustr ''1.9.0''), (ustr ''b'', ustr ''1.10.0'')] = Inr [ustr ''b'', ustr ''a'']"
proof -
  have b9: "base_version_str (ustr ''1.9.0'') = Inr (ustr ''1.9.0'')"
    by (simp add: base_version_str_def arrow_def ustr_def strip_def is_space_def)
  have b10: "base_version_str (ustr ''1.10.0'') = Inr (ustr ''1.10.0'')"
    by (simp add: base_version_str_def arrow_def ustr_def strip_def is_space_def)
  have lt: "ustr ''1.10.0'' < ustr ''1.9.0''"
    by (simp add: ustr_def)
  then have nlt: "\<not> ustr ''1.9.0'' < ustr ''1.10.0''"
    by simp
  show ?thesis
    using lt nlt
    by (simp add: sorts_before_def sort_column_version_def list_sort_def
        get_version_sort_key_def b9 b10)
qed



section \<open>The damage scan\<close>

lemma fst_dict_put:
  "map fst (dict_put k v d) = (if k \<in> set (map fst d) then map fst d else map fst d @ [k])"
  by (induction k v d rule: dict_put.induct) auto

lemma snd_dict_put_subset: "set (map snd (dict_put k v d)) \<subseteq> insert v (set (map snd d))"
  by (induction k v d rule: dict_put.induct) auto

lemma dict_put_mem: "(k, v) \<in> set (dict_put k v d)"
  by (induction k v d rule: dict_put.induct) auto

lemma dict_put_other: "(k', v') \<in> set d \<Longrightarrow> k' \<noteq> k \<Longrightarrow> (k', v') \<in> set (dict_put k v d)"
  by (induction k v d rule: dict_put.induct) auto

lemma dict_put_set: "set (dict_put k v d) \<subseteq> insert (k, v) (set d)"
  by (induction k v d rule: dict_put.induct) auto

lemma keyed_dict_put: "keyed_by_id d \<Longrightarrow> keyed_by_id (dict_put (p_id p) p d)"
proof -
  assume a: "keyed_by_id d"
  have "distinct (map fst (dict_put (p_id p) p d))"
    using a by (simp add: fst_dict_put keyed_by_id_def)
  moreover have "\<forall>(k, v) \<in> set (dict_put (p_id p) p d). p_id v = k"
    using a dict_put_set [of "p_id p" p d] by (auto simp: keyed_by_id_def)
  ultimately show ?thesis by (simp add: keyed_by_id_def)
qed

lemma fold_keyed:
  "keyed_by_id d \<Longrightarrow> keyed_by_id (foldl (\<lambda>d p. dict_put (p_id p) p d) d ps)"
  by (induction ps arbitrary: d) (simp_all add: keyed_dict_put)

lemma keys_dict_put: "set (map fst (dict_put k v d)) = insert k (set (map fst d))"
  by (simp add: fst_dict_put insert_absorb)

lemma fold_keys:
  "set (map fst (foldl (\<lambda>d p. dict_put (p_id p) p d) d ps)) = set (map fst d) \<union> set (map p_id ps)"
proof (induction ps arbitrary: d)
  case Nil
  then show ?case by simp
next
  case (Cons p ps)
  have "set (map fst (foldl (\<lambda>d p. dict_put (p_id p) p d) (dict_put (p_id p) p d) ps)) =
      set (map fst (dict_put (p_id p) p d)) \<union> set (map p_id ps)"
    by (rule Cons.IH)
  also have "\<dots> = set (map fst d) \<union> set (map p_id (p # ps))"
    unfolding keys_dict_put by auto
  finally show ?case by simp
qed

lemma fold_values:
  "set (map snd (foldl (\<lambda>d p. dict_put (p_id p) p d) d ps)) \<subseteq> set (map snd d) \<union> set ps"
proof (induction ps arbitrary: d)
  case Nil
  then show ?case by simp
next
  case (Cons p ps)
  show ?case
    using Cons.IH [of "dict_put (p_id p) p d"] snd_dict_put_subset [of "p_id p" p d]
    by auto
qed

lemma fold_keeps:
  assumes "keyed_by_id d"
    and "\<forall>q \<in> set ps. p_id q = p_id p \<longrightarrow> q = p"
    and "(p_id p, p) \<in> set d \<or> p \<in> set ps"
  shows "(p_id p, p) \<in> set (foldl (\<lambda>d p. dict_put (p_id p) p d) d ps)"
  using assms
proof (induction ps arbitrary: d)
  case Nil
  then show ?case by simp
next
  case (Cons q ps)
  have k: "keyed_by_id (dict_put (p_id q) q d)"
    using Cons.prems(1) by (rule keyed_dict_put)
  have u: "\<forall>q \<in> set ps. p_id q = p_id p \<longrightarrow> q = p"
    using Cons.prems(2) by simp
  have m: "(p_id p, p) \<in> set (dict_put (p_id q) q d) \<or> p \<in> set ps"
  proof (cases "q = p")
    case True
    then show ?thesis using dict_put_mem [of "p_id p" p d] by simp
  next
    case False
    then have ne: "p_id q \<noteq> p_id p" using Cons.prems(2) by auto
    show ?thesis
    proof (cases "(p_id p, p) \<in> set d")
      case True
      then show ?thesis using dict_put_other [of "p_id p" p d "p_id q" q] ne by auto
    next
      case False
      then show ?thesis using Cons.prems(3) \<open>q \<noteq> p\<close> by auto
    qed
  qed
  show ?case
    using Cons.IH [OF k u m] by simp
qed

lemma keyed_empty: "keyed_by_id []"
  by (simp add: keyed_by_id_def)

lemma keyed_ids: "keyed_by_id d \<Longrightarrow> map p_id (map snd d) = map fst d"
  by (induction d) (auto simp: keyed_by_id_def)

lemma unique_distinct: "distinct (map p_id (unique_problems ps))"
proof -
  have k: "keyed_by_id (foldl (\<lambda>d p. dict_put (p_id p) p d) [] ps)"
    using keyed_empty by (rule fold_keyed)
  show ?thesis
    unfolding unique_problems_def keyed_ids [OF k]
    using k by (simp add: keyed_by_id_def)
qed

lemma unique_ids: "set (map p_id (unique_problems ps)) = set (map p_id ps)"
proof -
  have k: "keyed_by_id (foldl (\<lambda>d p. dict_put (p_id p) p d) [] ps)"
    using keyed_empty by (rule fold_keyed)
  show ?thesis
    unfolding unique_problems_def keyed_ids [OF k]
    using fold_keys [of "[]" ps] by simp
qed

lemma unique_subset: "set (unique_problems ps) \<subseteq> set ps"
  unfolding unique_problems_def using fold_values [of "[]" ps] by simp

lemma unique_keeps:
  assumes "p \<in> set ps" and "\<forall>q \<in> set ps. p_id q = p_id p \<longrightarrow> q = p"
  shows "p \<in> set (unique_problems ps)"
proof -
  have "(p_id p, p) \<in> set (foldl (\<lambda>d p. dict_put (p_id p) p d) [] ps)"
    using keyed_empty assms(2) assms(1) by (intro fold_keeps) simp_all
  then show ?thesis
    unfolding unique_problems_def by force
qed

lemma reinstallable_constructors [simp]:
  "reinstallable (unparseable_metadata path package_name)"
  "reinstallable (dependency_conflict package_name req_part)"
  "reinstallable (distribution_lookup_failed nm e)"
  "reinstallable (import_failed nm details)"
  "reinstallable (import_check_failed nm e)"
  "reinstallable (missing_metadata_file nm mf)"
  "reinstallable (file_hash_mismatch nm f)"
  "reinstallable (file_check_failed nm f e)"
  "reinstallable (corrupted_record_file nm e)"
  by (simp_all add: reinstallable_def unparseable_metadata_def dependency_conflict_def
      distribution_lookup_failed_def import_failed_def import_check_failed_def
      missing_metadata_file_def file_hash_mismatch_def file_check_failed_def
      corrupted_record_file_def)

lemma reinst_dep_lines: "\<forall>p \<in> set (dep_line_problems ls). reinstallable p"
  by (induction ls) (auto split: option.splits list.splits)

lemma dep_problems_cases:
  "dep_problems env opts = [] \<or>
   (\<exists>out. dep_problems env opts = dep_line_problems (splitlines (strip out)))"
  by (cases "pip_check env") (auto simp: dep_problems_def)

lemma reinst_dep: "\<forall>p \<in> set (dep_problems env opts). reinstallable p"
  using dep_problems_cases [of env opts] reinst_dep_lines by auto

lemma import_problems_cases:
  "import_problems env mm nm = [] \<or>
   (\<exists>e. import_problems env mm nm = [import_check_failed nm e]) \<or>
   (\<exists>details. import_problems env mm nm = [import_failed nm details])"
proof (cases "mm nm")
  case None
  then show ?thesis by (simp add: import_problems_def)
next
  case (Some m)
  show ?thesis
  proof (cases "m = []")
    case True
    then show ?thesis by (simp add: import_problems_def Some)
  next
    case False
    show ?thesis
    proof (cases "run_import env m")
      case (Inl e)
      then have "import_problems env mm nm = [import_check_failed nm e]"
        by (simp add: import_problems_def Some False)
      then show ?thesis by blast
    next
      case (Inr r)
      obtain returncode stderr stdout where r: "r = (returncode, stderr, stdout)"
        by (cases r)
      show ?thesis
      proof (cases "returncode = 0")
        case True
        then show ?thesis by (simp add: import_problems_def Some False Inr r)
      next
        case ne: False
        show ?thesis
        proof (cases "split (ustr [CHR 0x0A]) (strip (if stderr \<noteq> [] then stderr else stdout))")
          case Nil
          then have "import_problems env mm nm =
              [import_check_failed nm (ustr ''list index out of range'')]"
            by (simp add: import_problems_def Some False Inr r ne Let_def)
          then show ?thesis by blast
        next
          case (Cons l ls)
          then have "import_problems env mm nm = [import_failed nm (last (l # ls))]"
            by (simp add: import_problems_def Some False Inr r ne Let_def)
          then show ?thesis by blast
        qed
      qed
    qed
  qed
qed

lemma reinst_import: "\<forall>p \<in> set (import_problems env mm nm). reinstallable p"
  using import_problems_cases [of env mm nm] by auto

lemma reinst_meta: "\<forall>p \<in> set (fst (missing_meta_problems d nm names)). reinstallable p"
  by (induction names) (auto split: sum.splits prod.splits)

lemma reinst_hash: "\<forall>p \<in> set (fst (hash_problems env nm fi path)). reinstallable p"
  by (auto simp: hash_problems_def split: option.splits sum.splits if_splits)

lemma reinst_file_try: "\<forall>p \<in> set (fst (file_try env opts d nm fi)). reinstallable p"
proof (cases "fi_locate fi")
  case (Inl e)
  then show ?thesis by (simp add: file_try_def)
next
  case (Inr full_path)
  obtain ps r where m: "(if check_metadata_files opts
                 then missing_meta_problems d nm [ustr ''METADATA'', ustr ''RECORD'', ustr ''WHEEL'']
                 else ([], None)) = (ps, r)"
    by (cases "(if check_metadata_files opts
                 then missing_meta_problems d nm [ustr ''METADATA'', ustr ''RECORD'', ustr ''WHEEL'']
                 else ([], None))")
  have ps: "\<forall>p \<in> set ps. reinstallable p"
    using m reinst_meta [of d nm "[ustr ''METADATA'', ustr ''RECORD'', ustr ''WHEEL'']"]
    by (auto split: if_splits)
  obtain hs r' where h: "hash_problems env nm fi full_path = (hs, r')"
    by (cases "hash_problems env nm fi full_path")
  have hs: "\<forall>p \<in> set hs. reinstallable p"
    using h reinst_hash [of env nm fi full_path] by simp
  show ?thesis
    using ps hs by (cases r) (auto simp: file_try_def Inr m h)
qed

lemma reinst_check_file: "\<forall>p \<in> set (check_file env opts d nm fi). reinstallable p"
proof -
  obtain ps r where t: "file_try env opts d nm fi = (ps, r)"
    by (cases "file_try env opts d nm fi")
  then have "\<forall>p \<in> set ps. reinstallable p"
    using reinst_file_try [of env opts d nm fi] by simp
  then show ?thesis
    by (cases r) (auto simp: check_file_def t)
qed

lemma reinst_file_problems: "\<forall>p \<in> set (file_problems env opts d nm). reinstallable p"
  using reinst_check_file by (cases "dist_files d") (auto simp: file_problems_def)

lemma reinst_check_package: "\<forall>p \<in> set (check_package env opts mm nm). reinstallable p"
  using reinst_import [of env mm nm] reinst_file_problems [of env opts _ nm]
  by (cases "distribution env nm") (auto simp: check_package_def)

lemma reinst_all: "\<forall>p \<in> set (all_problems env opts cache pkgs). reinstallable p"
  using reinst_dep [of env opts] reinst_check_package [of env opts]
  by (auto simp: all_problems_def cache_problem_def Let_def)

lemma reinst_scan: "\<forall>p \<in> set (scan_for_damaged_packages_task env opts st). reinstallable p"
  using reinst_all unique_subset unfolding scan_for_damaged_packages_task_def by blast

lemma tree_insert_all_distinct:
  "distinct (map p_id (tree @ ps)) \<Longrightarrow> tree_insert_all ps tree = Inr (tree @ ps)"
proof (induction ps arbitrary: tree)
  case Nil
  then show ?case by simp
next
  case (Cons p ps)
  have "p_id p \<notin> set (map p_id tree)"
    using Cons.prems by auto
  then have "tree_insert p tree = Inr (tree @ [p])"
    by (simp add: tree_insert_def)
  moreover have "tree_insert_all ps (tree @ [p]) = Inr ((tree @ [p]) @ ps)"
    using Cons.prems by (intro Cons.IH) simp
  ultimately show ?case by simp
qed

lemma all_reinstallable_True:
  assumes "\<forall>p \<in> set tree. reinstallable p" and "set sel \<subseteq> set (map p_id tree)"
  shows "all_reinstallable tree sel = Inr True"
  using assms(2)
proof (induction sel)
  case Nil
  then show ?case by simp
next
  case (Cons item sel)
  have "item \<in> set (map p_id tree)" using Cons.prems by simp
  then have "find (\<lambda>p. p_id p = item) tree \<noteq> None"
    by (auto simp: find_None_iff)
  then obtain p where f: "find (\<lambda>p. p_id p = item) tree = Some p" by blast
  then have "p \<in> set tree"
    by (auto simp: find_Some_iff)
  then have "p_type p = ustr ''reinstallable''"
    using assms(1) by (simp add: reinstallable_def)
  then show ?case using Cons f by simp
qed

lemma find_damaged_keeps:
  "all_packages (fst (find_damaged_packages opts st)) = all_packages st \<and>
   damaged_packages_cache (fst (find_damaged_packages opts st)) = damaged_packages_cache st"
  by (simp add: find_damaged_packages_def emit_def Let_def)

lemma find_damaged_started:
  assumes "find_damaged_packages opts st = (st1, Some o')"
  shows "o' = opts \<and> damaged_tree st1 = [] \<and> damaged_selection st1 = [] \<and>
         all_packages st1 = all_packages st \<and>
         damaged_packages_cache st1 = damaged_packages_cache st"
  using assms by (auto simp: find_damaged_packages_def emit_def Let_def split: if_splits)

lemma find_damaged_not_started:
  assumes "find_damaged_packages opts st = (st1, None)"
  shows "damaged_tree st1 = damaged_tree st \<and>
         all_packages st1 = all_packages st \<and>
         damaged_packages_cache st1 = damaged_packages_cache st"
  using assms by (auto simp: find_damaged_packages_def emit_def Let_def split: if_splits)

lemma scan_depends:
  "all_packages st' = all_packages st \<Longrightarrow>
   damaged_packages_cache st' = damaged_packages_cache st \<Longrightarrow>
   scan_for_damaged_packages_task env opts st' = scan_for_damaged_packages_task env opts st"
  by (simp add: scan_for_damaged_packages_task_def)

lemma scan_complete:
  assumes "damaged_tree st = []" and "damaged_selection st = []"
    and "distinct (map p_id problems)"
  shows "\<exists>st'. on_damaged_scan_complete problems st = Inr st' \<and>
           damaged_tree st' = problems \<and> damaged_selection st' = [] \<and>
           \<not> reinstall_damaged_btn st' \<and>
           all_packages st' = all_packages st \<and>
           damaged_packages_cache st' = damaged_packages_cache st"
proof -
  have "tree_insert_all problems [] = Inr ([] @ problems)"
    using assms(3) by (intro tree_insert_all_distinct) simp
  then show ?thesis
    using assms(1,2)
    by (simp add: on_damaged_scan_complete_def on_damaged_selection_changed_def emit_def Let_def)
qed

lemma run_damage_scan_result:
  "\<exists>st'. run_damage_scan env opts st = Inr st' \<and>
     all_packages st' = all_packages st \<and>
     damaged_packages_cache st' = damaged_packages_cache st \<and>
     (if snd (find_damaged_packages opts st) = None then damaged_tree st' = damaged_tree st
      else damaged_tree st' = scan_for_damaged_packages_task env opts st \<and>
           damaged_selection st' = [] \<and> \<not> reinstall_damaged_btn st')"
proof -
  obtain st1 r where f: "find_damaged_packages opts st = (st1, r)"
    by (cases "find_damaged_packages opts st")
  show ?thesis
  proof (cases r)
    case None
    then show ?thesis
      using f find_damaged_not_started [of opts st st1]
      by (simp add: run_damage_scan_def)
  next
    case (Some o')
    note s = find_damaged_started [OF f [unfolded Some]]
    have sc: "scan_for_damaged_packages_task env opts st1 = scan_for_damaged_packages_task env opts st"
      using s by (intro scan_depends) simp_all
    have "distinct (map p_id (scan_for_damaged_packages_task env opts st))"
      by (simp add: scan_for_damaged_packages_task_def unique_distinct)
    from scan_complete [OF conjunct1 [OF conjunct2 [OF s]]
        conjunct1 [OF conjunct2 [OF conjunct2 [OF s]]] this]
    obtain st' where
      "on_damaged_scan_complete (scan_for_damaged_packages_task env opts st) st1 = Inr st'"
      "damaged_tree st' = scan_for_damaged_packages_task env opts st"
      "damaged_selection st' = []" "\<not> reinstall_damaged_btn st'"
      "all_packages st' = all_packages st1"
      "damaged_packages_cache st' = damaged_packages_cache st1"
      by blast
    then show ?thesis
      using f Some s sc by (simp add: run_damage_scan_def)
  qed
qed

lemma name_constructors [simp]:
  "p_name (distribution_lookup_failed nm e) = nm"
  "p_name (import_failed nm details) = nm"
  "p_name (import_check_failed nm e) = nm"
  "p_name (missing_metadata_file nm mf) = nm"
  "p_name (file_hash_mismatch nm f) = nm"
  "p_name (file_check_failed nm f e) = nm"
  "p_name (corrupted_record_file nm e) = nm"
  by (simp_all add: distribution_lookup_failed_def import_failed_def import_check_failed_def
      missing_metadata_file_def file_hash_mismatch_def file_check_failed_def
      corrupted_record_file_def)

lemma name_import: "\<forall>p \<in> set (import_problems env mm nm). p_name p = nm"
  using import_problems_cases [of env mm nm] by auto

lemma name_meta: "\<forall>p \<in> set (fst (missing_meta_problems d nm names)). p_name p = nm"
  by (induction names) (auto split: sum.splits prod.splits)

lemma name_hash: "\<forall>p \<in> set (fst (hash_problems env nm fi path)). p_name p = nm"
  by (auto simp: hash_problems_def split: option.splits sum.splits if_splits)

lemma name_file_try: "\<forall>p \<in> set (fst (file_try env opts d nm fi)). p_name p = nm"
proof (cases "fi_locate fi")
  case (Inl e)
  then show ?thesis by (simp add: file_try_def)
next
  case (Inr full_path)
  obtain ps r where m: "(if check_metadata_files opts
                 then missing_meta_problems d nm [ustr ''METADATA'', ustr ''RECORD'', ustr ''WHEEL'']
                 else ([], None)) = (ps, r)"
    by (cases "(if check_metadata_files opts
                 then missing_meta_problems d nm [ustr ''METADATA'', ustr ''RECORD'', ustr ''WHEEL'']
                 else ([], None))")
  have ps: "\<forall>p \<in> set ps. p_name p = nm"
    using m name_meta [of d nm "[ustr ''METADATA'', ustr ''RECORD'', ustr ''WHEEL'']"]
    by (auto split: if_splits)
  obtain hs r' where h: "hash_problems env nm fi full_path = (hs, r')"
    by (cases "hash_problems env nm fi full_path")
  have hs: "\<forall>p \<in> set hs. p_name p = nm"
    using h name_hash [of env nm fi full_path] by simp
  show ?thesis
    using ps hs by (cases r) (auto simp: file_try_def Inr m h)
qed

lemma check_file_eq:
  "check_file env opts d nm fi =
     fst (file_try env opts d nm fi) @
     (case snd (file_try env opts d nm fi) of
        None \<Rightarrow> []
      | Some e \<Rightarrow> [file_check_failed nm (fi_str fi) e])"
  by (cases "file_try env opts d nm fi") (auto simp: check_file_def split: option.splits)

lemma name_check_file: "\<forall>p \<in> set (check_file env opts d nm fi). p_name p = nm"
  using name_file_try [of env opts d nm fi]
  by (auto simp: check_file_eq split: option.splits)

lemma name_file_problems: "\<forall>p \<in> set (file_problems env opts d nm). p_name p = nm"
  using name_check_file by (cases "dist_files d") (auto simp: file_problems_def)

lemma name_check_package: "\<forall>p \<in> set (check_package env opts mm nm). p_name p = nm"
  using name_import [of env mm nm] name_file_problems [of env opts _ nm]
  by (cases "distribution env nm") (auto simp: check_package_def)

lemma package_problems_in_all:
  assumes "pkg \<in> set pkgs"
  shows "set (check_package env opts (dist_to_module_map env opts) (pkg_name pkg))
           \<subseteq> set (all_problems env opts cache pkgs)"
  using assms by (auto simp: all_problems_def)

lemma meta_all_return:
  "\<forall>m \<in> set names. \<exists>b. meta_exists d m = Inr b \<Longrightarrow>
     missing_meta_problems d nm names =
       (map (missing_metadata_file nm) (filter (\<lambda>m. meta_exists d m = Inr False) names), None)"
proof (induction names)
  case Nil
  then show ?case by simp
next
  case (Cons n names)
  obtain b where b: "meta_exists d n = Inr b" using Cons.prems by auto
  have "missing_meta_problems d nm names =
       (map (missing_metadata_file nm) (filter (\<lambda>m. meta_exists d m = Inr False) names), None)"
    using Cons.prems by (intro Cons.IH) simp
  then show ?case by (cases b) (simp_all add: b)
qed

lemma meta_raises:
  "\<forall>m \<in> set pre. \<exists>b. meta_exists d m = Inr b \<Longrightarrow> meta_exists d n = Inl e \<Longrightarrow>
     missing_meta_problems d nm (pre @ n # post) =
       (map (missing_metadata_file nm) (filter (\<lambda>m. meta_exists d m = Inr False) pre), Some e)"
proof (induction pre)
  case Nil
  then show ?case by simp
next
  case (Cons m pre)
  obtain b where b: "meta_exists d m = Inr b" using Cons.prems by auto
  have "missing_meta_problems d nm (pre @ n # post) =
       (map (missing_metadata_file nm) (filter (\<lambda>m. meta_exists d m = Inr False) pre), Some e)"
    using Cons.prems by (intro Cons.IH) simp_all
  then show ?case by (cases b) (simp_all add: b)
qed

lemma locate_exception:
  assumes "fi_locate fi = Inl e"
  shows "check_file env opts d nm fi = [file_check_failed nm (fi_str fi) e]"
  using assms by (simp add: check_file_def file_try_def)

lemma metadata_exception:
  assumes "fi_locate fi = Inr path" and "check_metadata_files opts"
    and "[ustr ''METADATA'', ustr ''RECORD'', ustr ''WHEEL''] = pre @ n # post"
    and "\<forall>m \<in> set pre. \<exists>b. meta_exists d m = Inr b" and "meta_exists d n = Inl e"
  shows "check_file env opts d nm fi =
           map (missing_metadata_file nm) (filter (\<lambda>m. meta_exists d m = Inr False) pre) @
           [file_check_failed nm (fi_str fi) e]"
proof -
  have "missing_meta_problems d nm [ustr ''METADATA'', ustr ''RECORD'', ustr ''WHEEL''] =
      (map (missing_metadata_file nm) (filter (\<lambda>m. meta_exists d m = Inr False) pre), Some e)"
    unfolding assms(3) using assms(4,5) by (rule meta_raises)
  then show ?thesis
    using assms(1,2) by (simp add: check_file_def file_try_def)
qed

lemma hash_exception:
  assumes "fi_locate fi = Inr path" and "check_hashes opts"
    and "\<not> check_metadata_files opts \<or>
         (\<forall>m \<in> set [ustr ''METADATA'', ustr ''RECORD'', ustr ''WHEEL'']. \<exists>b. meta_exists d m = Inr b)"
    and "fi_hash fi = Some h" and "isfile env path" and "sha256_b64 env path = Inl e"
  shows "check_file env opts d nm fi =
           (if check_metadata_files opts
            then map (missing_metadata_file nm)
                   (filter (\<lambda>m. meta_exists d m = Inr False)
                      [ustr ''METADATA'', ustr ''RECORD'', ustr ''WHEEL''])
            else []) @
           [file_check_failed nm (fi_str fi) e]"
proof (cases "check_metadata_files opts")
  case False
  then show ?thesis
    using assms by (simp add: check_file_def file_try_def hash_problems_def)
next
  case True
  then have "\<forall>m \<in> set [ustr ''METADATA'', ustr ''RECORD'', ustr ''WHEEL'']. \<exists>b. meta_exists d m = Inr b"
    using assms(3) by blast
  then have "missing_meta_problems d nm [ustr ''METADATA'', ustr ''RECORD'', ustr ''WHEEL''] =
      (map (missing_metadata_file nm)
         (filter (\<lambda>m. meta_exists d m = Inr False)
            [ustr ''METADATA'', ustr ''RECORD'', ustr ''WHEEL'']), None)"
    by (rule meta_all_return)
  then show ?thesis
    using True assms(1,2,4,5,6) by (simp add: check_file_def file_try_def hash_problems_def)
qed

text \<open>
  What the loop over the packages does with exceptions. For a package of the list,
  whatever the other packages do: the problems of its own iteration are all appended to
  the list of the scan and name that package; each has its id in the returned list, and
  is itself returned when no other problem of the scan has its id. An exception of the
  distribution lookup is the single problem \<open>Distribution lookup failed\<close> of the
  package; an exception of the import test is an \<open>Import check failed\<close>; an exception
  while reading the file list is a \<open>Corrupted RECORD file\<close>. For each file of the
  package, the problems of the file are kept whatever happens at the other files; an
  exception of \<open>locate\<close>, of the test for a metadata file, or of the hash computation
  adds one \<open>File check failed\<close> after the problems found for the file before it.
\<close>

lemma check_failures_become_problems:
  assumes "pkg \<in> set (all_packages st)"
  shows
   "set (check_package env opts (dist_to_module_map env opts) (pkg_name pkg))
      \<subseteq> set (all_problems env opts (damaged_packages_cache st) (all_packages st)) \<and>
    (\<forall>p \<in> set (check_package env opts (dist_to_module_map env opts) (pkg_name pkg)).
        p_name p = pkg_name pkg \<and>
        (\<exists>q \<in> set (scan_for_damaged_packages_task env opts st). p_id q = p_id p) \<and>
        ((\<forall>q \<in> set (all_problems env opts (damaged_packages_cache st) (all_packages st)).
             p_id q = p_id p \<longrightarrow> q = p) \<longrightarrow>
           p \<in> set (scan_for_damaged_packages_task env opts st))) \<and>
    (distribution env (pkg_name pkg) = Inl e \<longrightarrow>
       check_package env opts (dist_to_module_map env opts) (pkg_name pkg) =
         [distribution_lookup_failed (pkg_name pkg) e]) \<and>
    (distribution env (pkg_name pkg) = Inr d \<and> check_import opts \<and>
     dist_to_module_map env opts (pkg_name pkg) = Some m \<and> m \<noteq> [] \<and>
     run_import env m = Inl e \<longrightarrow>
       import_check_failed (pkg_name pkg) e
         \<in> set (check_package env opts (dist_to_module_map env opts) (pkg_name pkg))) \<and>
    (distribution env (pkg_name pkg) = Inr d \<and>
     (check_hashes opts \<or> check_metadata_files opts) \<and> dist_files d = Inl e \<longrightarrow>
       corrupted_record_file (pkg_name pkg) e
         \<in> set (check_package env opts (dist_to_module_map env opts) (pkg_name pkg))) \<and>
    (distribution env (pkg_name pkg) = Inr d \<and>
     (check_hashes opts \<or> check_metadata_files opts) \<and> dist_files d = Inr files \<and>
     fi \<in> set files \<longrightarrow>
       set (check_file env opts d (pkg_name pkg) fi)
         \<subseteq> set (check_package env opts (dist_to_module_map env opts) (pkg_name pkg)) \<and>
       (fi_locate fi = Inl e \<longrightarrow>
          check_file env opts d (pkg_name pkg) fi =
            [file_check_failed (pkg_name pkg) (fi_str fi) e]) \<and>
       (fi_locate fi = Inr path \<and> check_metadata_files opts \<and>
        [ustr ''METADATA'', ustr ''RECORD'', ustr ''WHEEL''] = pre @ n # post \<and>
        (\<forall>m \<in> set pre. \<exists>b. meta_exists d m = Inr b) \<and> meta_exists d n = Inl e \<longrightarrow>
          check_file env opts d (pkg_name pkg) fi =
            map (missing_metadata_file (pkg_name pkg))
              (filter (\<lambda>m. meta_exists d m = Inr False) pre) @
            [file_check_failed (pkg_name pkg) (fi_str fi) e]) \<and>
       (fi_locate fi = Inr path \<and> check_hashes opts \<and>
        (\<not> check_metadata_files opts \<or>
         (\<forall>m \<in> set [ustr ''METADATA'', ustr ''RECORD'', ustr ''WHEEL''].
             \<exists>b. meta_exists d m = Inr b)) \<and>
        fi_hash fi = Some h \<and> isfile env path \<and> sha256_b64 env path = Inl e \<longrightarrow>
          check_file env opts d (pkg_name pkg) fi =
            (if check_metadata_files opts
             then map (missing_metadata_file (pkg_name pkg))
                    (filter (\<lambda>m. meta_exists d m = Inr False)
                       [ustr ''METADATA'', ustr ''RECORD'', ustr ''WHEEL''])
             else []) @
            [file_check_failed (pkg_name pkg) (fi_str fi) e]))"
proof -
  let ?nm = "pkg_name pkg"
  let ?mm = "dist_to_module_map env opts"
  let ?raw = "all_problems env opts (damaged_packages_cache st) (all_packages st)"
  let ?res = "scan_for_damaged_packages_task env opts st"
  have res: "?res = unique_problems ?raw"
    by (simp add: scan_for_damaged_packages_task_def)
  have A: "set (check_package env opts ?mm ?nm) \<subseteq> set ?raw"
    using assms by (rule package_problems_in_all)
  have B: "\<forall>p \<in> set (check_package env opts ?mm ?nm).
        p_name p = ?nm \<and> (\<exists>q \<in> set ?res. p_id q = p_id p) \<and>
        ((\<forall>q \<in> set ?raw. p_id q = p_id p \<longrightarrow> q = p) \<longrightarrow> p \<in> set ?res)"
  proof
    fix p
    assume p: "p \<in> set (check_package env opts ?mm ?nm)"
    then have raw: "p \<in> set ?raw" using A by blast
    have 1: "p_name p = ?nm" using p name_check_package by blast
    have "p_id p \<in> set (map p_id ?res)"
      unfolding res unique_ids using raw by simp
    then have 2: "\<exists>q \<in> set ?res. p_id q = p_id p" by auto
    have 3: "(\<forall>q \<in> set ?raw. p_id q = p_id p \<longrightarrow> q = p) \<longrightarrow> p \<in> set ?res"
      unfolding res using unique_keeps [OF raw] by blast
    show "p_name p = ?nm \<and> (\<exists>q \<in> set ?res. p_id q = p_id p) \<and>
        ((\<forall>q \<in> set ?raw. p_id q = p_id p \<longrightarrow> q = p) \<longrightarrow> p \<in> set ?res)"
      using 1 2 3 by (intro conjI)
  qed
  have C: "distribution env ?nm = Inl e \<longrightarrow>
       check_package env opts ?mm ?nm = [distribution_lookup_failed ?nm e]"
    by (simp add: check_package_def)
  have D: "distribution env ?nm = Inr d \<and> check_import opts \<and> ?mm ?nm = Some m \<and> m \<noteq> [] \<and>
     run_import env m = Inl e \<longrightarrow>
       import_check_failed ?nm e \<in> set (check_package env opts ?mm ?nm)"
    by (simp add: check_package_def import_problems_def)
  have E: "distribution env ?nm = Inr d \<and>
     (check_hashes opts \<or> check_metadata_files opts) \<and> dist_files d = Inl e \<longrightarrow>
       corrupted_record_file ?nm e \<in> set (check_package env opts ?mm ?nm)"
    by (auto simp: check_package_def file_problems_def)
  have F0: "distribution env ?nm = Inr d \<and>
     (check_hashes opts \<or> check_metadata_files opts) \<and> dist_files d = Inr files \<and>
     fi \<in> set files \<longrightarrow>
       set (check_file env opts d ?nm fi) \<subseteq> set (check_package env opts ?mm ?nm)"
    by (auto simp: check_package_def file_problems_def)
  have F1: "fi_locate fi = Inl e \<longrightarrow>
       check_file env opts d ?nm fi = [file_check_failed ?nm (fi_str fi) e]"
    by (simp add: locate_exception)
  have F2: "fi_locate fi = Inr path \<and> check_metadata_files opts \<and>
        [ustr ''METADATA'', ustr ''RECORD'', ustr ''WHEEL''] = pre @ n # post \<and>
        (\<forall>m \<in> set pre. \<exists>b. meta_exists d m = Inr b) \<and> meta_exists d n = Inl e \<longrightarrow>
          check_file env opts d ?nm fi =
            map (missing_metadata_file ?nm) (filter (\<lambda>m. meta_exists d m = Inr False) pre) @
            [file_check_failed ?nm (fi_str fi) e]"
  proof (rule impI)
    assume h: "fi_locate fi = Inr path \<and> check_metadata_files opts \<and>
        [ustr ''METADATA'', ustr ''RECORD'', ustr ''WHEEL''] = pre @ n # post \<and>
        (\<forall>m \<in> set pre. \<exists>b. meta_exists d m = Inr b) \<and> meta_exists d n = Inl e"
    have h1: "fi_locate fi = Inr path" using h by (elim conjE)
    have h2: "check_metadata_files opts" using h by (elim conjE)
    have h3: "[ustr ''METADATA'', ustr ''RECORD'', ustr ''WHEEL''] = pre @ n # post"
      using h by (elim conjE)
    have h4: "\<forall>m \<in> set pre. \<exists>b. meta_exists d m = Inr b" using h by (elim conjE)
    have h5: "meta_exists d n = Inl e" using h by (elim conjE)
    show "check_file env opts d ?nm fi =
            map (missing_metadata_file ?nm) (filter (\<lambda>m. meta_exists d m = Inr False) pre) @
            [file_check_failed ?nm (fi_str fi) e]"
      using h1 h2 h3 h4 h5 by (rule metadata_exception)
  qed
  have F3: "fi_locate fi = Inr path \<and> check_hashes opts \<and>
        (\<not> check_metadata_files opts \<or>
         (\<forall>m \<in> set [ustr ''METADATA'', ustr ''RECORD'', ustr ''WHEEL''].
             \<exists>b. meta_exists d m = Inr b)) \<and>
        fi_hash fi = Some h \<and> isfile env path \<and> sha256_b64 env path = Inl e \<longrightarrow>
          check_file env opts d ?nm fi =
            (if check_metadata_files opts
             then map (missing_metadata_file ?nm)
                    (filter (\<lambda>m. meta_exists d m = Inr False)
                       [ustr ''METADATA'', ustr ''RECORD'', ustr ''WHEEL''])
             else []) @
            [file_check_failed ?nm (fi_str fi) e]"
  proof (rule impI)
    assume h: "fi_locate fi = Inr path \<and> check_hashes opts \<and>
        (\<not> check_metadata_files opts \<or>
         (\<forall>m \<in> set [ustr ''METADATA'', ustr ''RECORD'', ustr ''WHEEL''].
             \<exists>b. meta_exists d m = Inr b)) \<and>
        fi_hash fi = Some h \<and> isfile env path \<and> sha256_b64 env path = Inl e"
    have h1: "fi_locate fi = Inr path" using h by (elim conjE)
    have h2: "check_hashes opts" using h by (elim conjE)
    have h3: "\<not> check_metadata_files opts \<or>
         (\<forall>m \<in> set [ustr ''METADATA'', ustr ''RECORD'', ustr ''WHEEL''].
             \<exists>b. meta_exists d m = Inr b)" using h by (elim conjE)
    have h4: "fi_hash fi = Some h" using h by (elim conjE)
    have h5: "isfile env path" using h by (elim conjE)
    have h6: "sha256_b64 env path = Inl e" using h by (elim conjE)
    show "check_file env opts d ?nm fi =
            (if check_metadata_files opts
             then map (missing_metadata_file ?nm)
                    (filter (\<lambda>m. meta_exists d m = Inr False)
                       [ustr ''METADATA'', ustr ''RECORD'', ustr ''WHEEL''])
             else []) @
            [file_check_failed ?nm (fi_str fi) e]"
      using h1 h2 h3 h4 h5 h6 by (rule hash_exception)
  qed
  have F: "distribution env ?nm = Inr d \<and>
     (check_hashes opts \<or> check_metadata_files opts) \<and> dist_files d = Inr files \<and>
     fi \<in> set files \<longrightarrow>
       set (check_file env opts d ?nm fi) \<subseteq> set (check_package env opts ?mm ?nm) \<and>
       (fi_locate fi = Inl e \<longrightarrow>
          check_file env opts d ?nm fi = [file_check_failed ?nm (fi_str fi) e]) \<and>
       (fi_locate fi = Inr path \<and> check_metadata_files opts \<and>
        [ustr ''METADATA'', ustr ''RECORD'', ustr ''WHEEL''] = pre @ n # post \<and>
        (\<forall>m \<in> set pre. \<exists>b. meta_exists d m = Inr b) \<and> meta_exists d n = Inl e \<longrightarrow>
          check_file env opts d ?nm fi =
            map (missing_metadata_file ?nm) (filter (\<lambda>m. meta_exists d m = Inr False) pre) @
            [file_check_failed ?nm (fi_str fi) e]) \<and>
       (fi_locate fi = Inr path \<and> check_hashes opts \<and>
        (\<not> check_metadata_files opts \<or>
         (\<forall>m \<in> set [ustr ''METADATA'', ustr ''RECORD'', ustr ''WHEEL''].
             \<exists>b. meta_exists d m = Inr b)) \<and>
        fi_hash fi = Some h \<and> isfile env path \<and> sha256_b64 env path = Inl e \<longrightarrow>
          check_file env opts d ?nm fi =
            (if check_metadata_files opts
             then map (missing_metadata_file ?nm)
                    (filter (\<lambda>m. meta_exists d m = Inr False)
                       [ustr ''METADATA'', ustr ''RECORD'', ustr ''WHEEL''])
             else []) @
            [file_check_failed ?nm (fi_str fi) e])"
  proof (rule impI)
    assume h: "distribution env ?nm = Inr d \<and>
     (check_hashes opts \<or> check_metadata_files opts) \<and> dist_files d = Inr files \<and>
     fi \<in> set files"
    show "set (check_file env opts d ?nm fi) \<subseteq> set (check_package env opts ?mm ?nm) \<and>
       (fi_locate fi = Inl e \<longrightarrow>
          check_file env opts d ?nm fi = [file_check_failed ?nm (fi_str fi) e]) \<and>
       (fi_locate fi = Inr path \<and> check_metadata_files opts \<and>
        [ustr ''METADATA'', ustr ''RECORD'', ustr ''WHEEL''] = pre @ n # post \<and>
        (\<forall>m \<in> set pre. \<exists>b. meta_exists d m = Inr b) \<and> meta_exists d n = Inl e \<longrightarrow>
          check_file env opts d ?nm fi =
            map (missing_metadata_file ?nm) (filter (\<lambda>m. meta_exists d m = Inr False) pre) @
            [file_check_failed ?nm (fi_str fi) e]) \<and>
       (fi_locate fi = Inr path \<and> check_hashes opts \<and>
        (\<not> check_metadata_files opts \<or>
         (\<forall>m \<in> set [ustr ''METADATA'', ustr ''RECORD'', ustr ''WHEEL''].
             \<exists>b. meta_exists d m = Inr b)) \<and>
        fi_hash fi = Some h \<and> isfile env path \<and> sha256_b64 env path = Inl e \<longrightarrow>
          check_file env opts d ?nm fi =
            (if check_metadata_files opts
             then map (missing_metadata_file ?nm)
                    (filter (\<lambda>m. meta_exists d m = Inr False)
                       [ustr ''METADATA'', ustr ''RECORD'', ustr ''WHEEL''])
             else []) @
            [file_check_failed ?nm (fi_str fi) e])"
      by (intro conjI mp [OF F0 h] F1 F2 F3)
  qed
  show ?thesis
    by (intro conjI A B C D E F)
qed

text \<open>
  Claim C5, at a failing input. In \<open>colliding_state\<close> the hash check raises for the
  file \<open>b-c\<close> of package \<open>a\<close> and for the file \<open>c\<close> of package \<open>a-b\<close>. Each exception
  appends a \<open>File check failed\<close> problem, and the two problems have the same id. The
  list that the scan returns holds one problem, which names \<open>a-b\<close>: no returned
  problem names \<open>a\<close>.
\<close>

theorem colliding_ids_lose_a_problem:
  "all_problems colliding_env hash_options (damaged_packages_cache colliding_state)
       (all_packages colliding_state) =
     [file_check_failed (ustr ''a'') (ustr ''b-c'') (ustr ''Permission denied''),
      file_check_failed (ustr ''a-b'') (ustr ''c'') (ustr ''Permission denied'')] \<and>
   p_id (file_check_failed (ustr ''a'') (ustr ''b-c'') (ustr ''Permission denied'')) =
     ustr ''filecheck-fail-a-b-c'' \<and>
   p_id (file_check_failed (ustr ''a-b'') (ustr ''c'') (ustr ''Permission denied'')) =
     ustr ''filecheck-fail-a-b-c'' \<and>
   scan_for_damaged_packages_task colliding_env hash_options colliding_state =
     [file_check_failed (ustr ''a-b'') (ustr ''c'') (ustr ''Permission denied'')] \<and>
   map p_name (scan_for_damaged_packages_task colliding_env hash_options colliding_state) =
     [ustr ''a-b'']"
proof -
  have raw: "all_problems colliding_env hash_options (damaged_packages_cache colliding_state)
       (all_packages colliding_state) =
     [file_check_failed (ustr ''a'') (ustr ''b-c'') (ustr ''Permission denied''),
      file_check_failed (ustr ''a-b'') (ustr ''c'') (ustr ''Permission denied'')]"
    by (simp add: all_problems_def colliding_state_def initial_state_def mk_package_def
        colliding_env_def hash_options_def colliding_dist_def dep_problems_def
        check_package_def dist_to_module_map_def file_problems_def check_file_def
        file_try_def hash_problems_def ustr_def)
  have i1: "p_id (file_check_failed (ustr ''a'') (ustr ''b-c'') (ustr ''Permission denied'')) =
     ustr ''filecheck-fail-a-b-c''"
    by (simp add: file_check_failed_def ustr_def)
  have i2: "p_id (file_check_failed (ustr ''a-b'') (ustr ''c'') (ustr ''Permission denied'')) =
     ustr ''filecheck-fail-a-b-c''"
    by (simp add: file_check_failed_def ustr_def)
  have res: "scan_for_damaged_packages_task colliding_env hash_options colliding_state =
     [file_check_failed (ustr ''a-b'') (ustr ''c'') (ustr ''Permission denied'')]"
    by (simp add: scan_for_damaged_packages_task_def raw unique_problems_def i1 i2)
  have nm: "map p_name (scan_for_damaged_packages_task colliding_env hash_options colliding_state) =
     [ustr ''a-b'']"
    by (simp add: res)
  show ?thesis
    by (intro conjI raw i1 i2 res nm)
qed

text \<open>
  Claim C10. Every problem that the scan returns has the type \<open>reinstallable\<close>, and so
  has each of the nine kinds of problem. After a scan from the tab, any selection of
  rows of the tree that is not empty enables the reinstall button.
\<close>

theorem scan_problems_reinstallable:
  "(\<forall>p \<in> set (scan_for_damaged_packages_task env opts st). p_type p = ustr ''reinstallable'') \<and>
   p_type (unparseable_metadata path package_name) = ustr ''reinstallable'' \<and>
   p_type (dependency_conflict package_name req_part) = ustr ''reinstallable'' \<and>
   p_type (import_failed nm details) = ustr ''reinstallable'' \<and>
   p_type (file_hash_mismatch nm f) = ustr ''reinstallable'' \<and>
   p_type (missing_metadata_file nm mf) = ustr ''reinstallable'' \<and>
   p_type (distribution_lookup_failed nm e) = ustr ''reinstallable'' \<and>
   p_type (import_check_failed nm e) = ustr ''reinstallable'' \<and>
   p_type (file_check_failed nm f e) = ustr ''reinstallable'' \<and>
   p_type (corrupted_record_file nm e) = ustr ''reinstallable'' \<and>
   (snd (find_damaged_packages opts st) \<noteq> None \<longrightarrow>
      (\<exists>st'. run_damage_scan env opts st = Inr st' \<and>
          damaged_tree st' = scan_for_damaged_packages_task env opts st \<and>
          (\<forall>sel. sel \<noteq> [] \<and> set sel \<subseteq> set (map p_id (damaged_tree st')) \<longrightarrow>
             (\<exists>st''. select_damaged sel st' = Inr st'' \<and> reinstall_damaged_btn st''))))"
proof -
  have 1: "\<forall>p \<in> set (scan_for_damaged_packages_task env opts st). p_type p = ustr ''reinstallable''"
    using reinst_scan [of env opts st] by (simp add: reinstallable_def)
  have 2: "\<exists>st'. run_damage_scan env opts st = Inr st' \<and>
          damaged_tree st' = scan_for_damaged_packages_task env opts st \<and>
          (\<forall>sel. sel \<noteq> [] \<and> set sel \<subseteq> set (map p_id (damaged_tree st')) \<longrightarrow>
             (\<exists>st''. select_damaged sel st' = Inr st'' \<and> reinstall_damaged_btn st''))"
    if started: "snd (find_damaged_packages opts st) \<noteq> None"
  proof -
    obtain st' where r: "run_damage_scan env opts st = Inr st'"
      and t: "damaged_tree st' = scan_for_damaged_packages_task env opts st"
      using run_damage_scan_result [of env opts st] started by auto
    have "\<exists>st''. select_damaged sel st' = Inr st'' \<and> reinstall_damaged_btn st''"
      if sel: "sel \<noteq> [] \<and> set sel \<subseteq> set (map p_id (damaged_tree st'))" for sel
    proof -
      have "all_reinstallable (damaged_tree st') sel = Inr True"
        using sel reinst_scan [of env opts st] unfolding t
        by (intro all_reinstallable_True) simp_all
      then show ?thesis
        using sel by (simp add: select_damaged_def on_damaged_selection_changed_def)
    qed
    then show ?thesis using r t by blast
  qed
  have c: "\<And>p. reinstallable p \<Longrightarrow> p_type p = ustr ''reinstallable''"
    by (simp add: reinstallable_def)
  show ?thesis
    by (intro conjI impI 1 2 c reinstallable_constructors)
qed

lemma find_damaged_same:
  assumes "all_packages st' = all_packages st"
    and "damaged_packages_cache st' = damaged_packages_cache st"
  shows "snd (find_damaged_packages opts st') = snd (find_damaged_packages opts st)"
  using assms by (simp add: find_damaged_packages_def Let_def)

text \<open>
  Claim C9. The list that the scan returns has no id twice. Running the classifier from
  the tab twice, with the same options and surroundings, succeeds both times (no row is
  inserted under an id in use), the second scan computes the list of the first, and the
  tree after the second run is the tree after the first.
\<close>

theorem damage_scan_idempotent:
  "distinct (map p_id (scan_for_damaged_packages_task env opts st)) \<and>
   (\<exists>st1 st2. run_damage_scan env opts st = Inr st1 \<and>
       run_damage_scan env opts st1 = Inr st2 \<and>
       scan_for_damaged_packages_task env opts st1 = scan_for_damaged_packages_task env opts st \<and>
       damaged_tree st2 = damaged_tree st1 \<and>
       (snd (find_damaged_packages opts st) \<noteq> None \<longrightarrow>
          damaged_tree st1 = scan_for_damaged_packages_task env opts st))"
proof -
  have 1: "distinct (map p_id (scan_for_damaged_packages_task env opts st))"
    by (simp add: scan_for_damaged_packages_task_def unique_distinct)
  obtain st1 where r1: "run_damage_scan env opts st = Inr st1"
    and k1: "all_packages st1 = all_packages st"
      "damaged_packages_cache st1 = damaged_packages_cache st"
    and t1: "if snd (find_damaged_packages opts st) = None then damaged_tree st1 = damaged_tree st
      else damaged_tree st1 = scan_for_damaged_packages_task env opts st \<and>
           damaged_selection st1 = [] \<and> \<not> reinstall_damaged_btn st1"
    using run_damage_scan_result [of env opts st] by blast
  obtain st2 where r2: "run_damage_scan env opts st1 = Inr st2"
    and t2: "if snd (find_damaged_packages opts st1) = None then damaged_tree st2 = damaged_tree st1
      else damaged_tree st2 = scan_for_damaged_packages_task env opts st1 \<and>
           damaged_selection st2 = [] \<and> \<not> reinstall_damaged_btn st2"
    using run_damage_scan_result [of env opts st1] by blast
  have same: "scan_for_damaged_packages_task env opts st1 = scan_for_damaged_packages_task env opts st"
    using k1 by (rule scan_depends)
  have f: "snd (find_damaged_packages opts st1) = snd (find_damaged_packages opts st)"
    using k1 by (rule find_damaged_same)
  have tree: "damaged_tree st2 = damaged_tree st1"
    using t1 t2 same f by (cases "snd (find_damaged_packages opts st) = None") simp_all
  have started: "snd (find_damaged_packages opts st) \<noteq> None \<longrightarrow>
          damaged_tree st1 = scan_for_damaged_packages_task env opts st"
    using t1 by simp
  show ?thesis
    using 1 r1 r2 same tree started by blast
qed

lemma sample_scan:
  "scan_for_damaged_packages_task sample_damage_env sample_options loaded_state =
    [unparseable_metadata (ustr ''/sp/bad-1.0.dist-info'') (ustr ''bad''),
     dependency_conflict (ustr ''requests'') (ustr ''urllib3<2, but you have urllib3 2.0.7.''),
     distribution_lookup_failed (ustr ''pip'') (ustr ''No package metadata was found for pip''),
     file_check_failed (ustr ''requests'') (ustr ''requests/__init__.py'') (ustr ''Permission denied''),
     file_hash_mismatch (ustr ''urllib3'') (ustr ''urllib3/__init__.py'')]"
  by (simp add: scan_for_damaged_packages_task_def unique_problems_def all_problems_def
      loaded_state_def initial_state_def mk_package_def sample_damage_env_def sample_options_def
      sample_dist_def cache_problem_def remove_all_def rsplit1_head_def dep_problems_def
      splitlines_def strip_def is_space_def is_linebreak_def check_package_def
      dist_to_module_map_def file_problems_def check_file_def file_try_def hash_problems_def
      unparseable_metadata_def dependency_conflict_def distribution_lookup_failed_def
      file_hash_mismatch_def file_check_failed_def ustr_def Let_def)

lemma sample_starts: "snd (find_damaged_packages sample_options loaded_state) \<noteq> None"
  by (simp add: find_damaged_packages_def sample_options_def loaded_state_def
      initial_state_def Let_def)

theorem scan_problems_reinstallable_witness:
  "snd (find_damaged_packages sample_options loaded_state) \<noteq> None \<and>
   map p_type (scan_for_damaged_packages_task sample_damage_env sample_options loaded_state) =
     [ustr ''reinstallable'', ustr ''reinstallable'', ustr ''reinstallable'',
      ustr ''reinstallable'', ustr ''reinstallable''] \<and>
   (\<exists>st'. run_damage_scan sample_damage_env sample_options loaded_state = Inr st' \<and>
       [ustr ''dep-requests'', ustr ''dist-fail-pip''] \<noteq> [] \<and>
       set [ustr ''dep-requests'', ustr ''dist-fail-pip''] \<subseteq> set (map p_id (damaged_tree st')) \<and>
       (\<exists>st''. select_damaged [ustr ''dep-requests'', ustr ''dist-fail-pip''] st' = Inr st'' \<and>
           reinstall_damaged_btn st''))"
proof -
  note T = scan_problems_reinstallable [where env = sample_damage_env
      and opts = sample_options and st = loaded_state]
  have 1: "map p_type (scan_for_damaged_packages_task sample_damage_env sample_options loaded_state) =
     [ustr ''reinstallable'', ustr ''reinstallable'', ustr ''reinstallable'',
      ustr ''reinstallable'', ustr ''reinstallable'']"
    using conjunct1 [OF T] unfolding sample_scan by simp
  note L = conjunct2 [OF conjunct2 [OF conjunct2 [OF conjunct2 [OF conjunct2
      [OF conjunct2 [OF conjunct2 [OF conjunct2 [OF conjunct2 [OF conjunct2 [OF T]]]]]]]]]]
  from mp [OF L sample_starts] obtain st' where
    r: "run_damage_scan sample_damage_env sample_options loaded_state = Inr st'"
    and t: "damaged_tree st' =
        scan_for_damaged_packages_task sample_damage_env sample_options loaded_state"
    and s: "\<forall>sel. sel \<noteq> [] \<and> set sel \<subseteq> set (map p_id (damaged_tree st')) \<longrightarrow>
             (\<exists>st''. select_damaged sel st' = Inr st'' \<and> reinstall_damaged_btn st'')"
    by blast
  have sub: "[ustr ''dep-requests'', ustr ''dist-fail-pip''] \<noteq> [] \<and>
      set [ustr ''dep-requests'', ustr ''dist-fail-pip''] \<subseteq> set (map p_id (damaged_tree st'))"
    unfolding t sample_scan
    by (simp add: unparseable_metadata_def dependency_conflict_def distribution_lookup_failed_def
        file_hash_mismatch_def file_check_failed_def ustr_def)
  have "\<exists>st''. select_damaged [ustr ''dep-requests'', ustr ''dist-fail-pip''] st' = Inr st'' \<and>
           reinstall_damaged_btn st''"
    using s sub by blast
  then show ?thesis
    using sample_starts 1 r sub by blast
qed

theorem damage_scan_idempotent_witness:
  "snd (find_damaged_packages sample_options loaded_state) \<noteq> None \<and>
   (\<exists>st1 st2. run_damage_scan sample_damage_env sample_options loaded_state = Inr st1 \<and>
       run_damage_scan sample_damage_env sample_options st1 = Inr st2 \<and>
       damaged_tree st2 = damaged_tree st1 \<and>
       damaged_tree st1 =
         scan_for_damaged_packages_task sample_damage_env sample_options loaded_state)"
  using sample_starts
    damage_scan_idempotent [where env = sample_damage_env and opts = sample_options
      and st = loaded_state]
  by blast

end
